theory Spec2Isabelle
  imports Complex_Main
begin

section \<open>The crawler of \<^verbatim>\<open>src/crawler.js\<close>\<close>

text \<open>
  The crawler asks a paginated search service for pages of repositories, normalises each
  page and hands it to a storage layer. Everything it does to the outside world (the
  remote call, the clock, the storage calls, the timed sleeps) is an effect; the model
  makes the answers of the outside world an explicit input and returns the effects the
  program performs, in order, together with the crawl state.
\<close>

subsection \<open>Data of a response\<close>

text \<open>
  The fields are those selected by \<^verbatim>\<open>QUERY\<close>. A field the code guards with
  \<^verbatim>\<open>??\<close>, \<^verbatim>\<open>?.\<close> or a truthiness test is an \<open>option\<close> (\<open>None\<close> for
  \<^verbatim>\<open>null\<close> or \<^verbatim>\<open>undefined\<close>); the fields it copies unguarded
  (\<^verbatim>\<open>id\<close>, \<^verbatim>\<open>name\<close>, \<^verbatim>\<open>url\<close>) are strings. The field
  \<open>resetAt\<close> holds the number \<^verbatim>\<open>new Date(rl.resetAt).getTime()\<close>, in
  milliseconds. An edge is identified with its \<^verbatim>\<open>node\<close>; \<^verbatim>\<open>pageInfo\<close> and
  the nodes are present whenever \<^verbatim>\<open>search\<close> and \<^verbatim>\<open>edges\<close> are, as the
  schema of the query has it.
\<close>

record repo_owner =
  login :: "string option"

record node =
  node_id :: string
  databaseId :: "int option"
  node_name :: string
  node_url :: string
  stargazerCount :: "int option"
  node_owner :: "repo_owner option"

record pageInfo_t =
  endCursor :: "string option"
  hasNextPage :: bool

record search_result =
  edges :: "node list option"
  pageInfo :: pageInfo_t

record rateLimit_t =
  limit :: int
  cost :: int
  remaining :: int
  resetAt :: int

record payload =
  rateLimit :: "rateLimit_t option"
  search :: "search_result option"

text \<open>
  The body \<^verbatim>\<open>resp.data\<close> that \<^verbatim>\<open>callGithub\<close> resolves with:
  \<^verbatim>\<open>data.errors\<close> (an array, truthy even when empty) and \<^verbatim>\<open>data.data\<close>.
\<close>

record response =
  errors :: "string list option"
  data :: "payload option"

text \<open>The row handed to \<^verbatim>\<open>upsertRepos\<close> (lines 135 to 142).\<close>

record repo =
  repo_node_id :: string
  repo_db_id :: "int option"
  name :: string
  owner :: "string option"
  stars :: int
  url :: string

subsection \<open>Errors\<close>

text \<open>
  The errors that travel through \<^verbatim>\<open>callGithub\<close>: the two it creates itself and
  the rejection of \<^verbatim>\<open>axios.post\<close>, with its message and, when the server
  answered, the status in \<^verbatim>\<open>err.response.status\<close>.
\<close>

datatype gh_error =
    ServerError nat
  | Unauthorized
  | AxiosError string "nat option"

subsection \<open>Crawl state, the outside world, effects\<close>

record crawl_state =
  collected :: int
  after :: "string option"
  page :: nat

text \<open>
  What the outside world answers during one iteration of the loop: the settlement of
  \<^verbatim>\<open>callGithub(variables)\<close>, the reading of \<^verbatim>\<open>Date.now()\<close> and whether
  \<^verbatim>\<open>upsertRepos\<close> resolves. The last two are read only when the iteration
  reaches them.
\<close>

record iter_env =
  call :: "gh_error + response"
  now :: int
  upsert_ok :: bool

text \<open>
  The effects of a run are the calls that \<^verbatim>\<open>main\<close> itself makes, in the order
  in which it makes them: the call of \<^verbatim>\<open>ensureSchema\<close>, a call of
  \<^verbatim>\<open>callGithub\<close> with the cursor \<^verbatim>\<open>after\<close> and the page size
  \<^verbatim>\<open>first\<close>, a \<^verbatim>\<open>sleep\<close> with its milliseconds, a call of
  \<^verbatim>\<open>upsertRepos\<close> with its batch and whether it resolved, the call of
  \<^verbatim>\<open>closePool\<close>. The requests that a retry operation sends are not among them;
  they belong to the retry wrapper, which is modelled on its own below.
\<close>

datatype effect =
    EnsureSchema
  | Request "string option" nat
  | Sleep int
  | Upsert "repo list" bool
  | ClosePool

text \<open>
  How an iteration hands control back: \<^verbatim>\<open>continue\<close> (or the end of the body), a
  \<^verbatim>\<open>break\<close>, labelled with the one of the four \<^verbatim>\<open>break\<close> statements that ran
  (lines 103, 130, 160 and 167), or an exception that no \<^verbatim>\<open>try\<close> of the body
  catches.
\<close>

datatype stop = FatalError gh_error | NoResults | NoNextPage | NoCursor

datatype ctl = Continue | Break stop | Throw

definition PAGE_SIZE :: nat where
  "PAGE_SIZE = 100"

definition initial :: crawl_state where
  "initial = \<lparr>collected = 0, after = None, page = 0\<rparr>"

subsection \<open>One iteration of the loop\<close>

text \<open>Lines 133 to 143: one row per edge.\<close>

definition to_repo :: "node \<Rightarrow> repo" where
  "to_repo n =
     \<lparr>repo_node_id = node_id n,
      repo_db_id = databaseId n,
      name = node_name n,
      owner = (case node_owner n of None \<Rightarrow> None | Some ow \<Rightarrow> login ow),
      stars = (case stargazerCount n of None \<Rightarrow> 0 | Some s \<Rightarrow> s),
      url = node_url n\<rparr>"

definition repos_of :: "node list \<Rightarrow> repo list" where
  "repos_of es = map to_repo es"

text \<open>Line 167: \<^verbatim>\<open>!after\<close> holds for \<^verbatim>\<open>null\<close> and for the empty string.\<close>

definition falsy :: "string option \<Rightarrow> bool" where
  "falsy c = (case c of None \<Rightarrow> True | Some s \<Rightarrow> s = [])"

text \<open>
  Lines 114 to 125: the pause the quota snapshot asks for, if any.
\<close>

definition rate_wait :: "rateLimit_t option \<Rightarrow> int \<Rightarrow> int option" where
  "rate_wait rlo t =
     (case rlo of
        None \<Rightarrow> None
      | Some rl \<Rightarrow>
          if remaining rl \<le> 10 then Some (max 1000 (resetAt rl - t + 2000)) else None)"

text \<open>
  Lines 127 to 167, for a response that got past the error test and the quota test.
  The state given is the one with the page counter already incremented.
\<close>

definition page_stage ::
  "crawl_state \<Rightarrow> search_result option \<Rightarrow> bool \<Rightarrow> effect list \<times> crawl_state \<times> ctl" where
  "page_stage st so ok =
     (case so of
        None \<Rightarrow> ([], st, Break NoResults)
      | Some s \<Rightarrow>
          (case edges s of
             None \<Rightarrow> ([], st, Break NoResults)
           | Some es \<Rightarrow>
               if length es = 0 then ([], st, Break NoResults)
               else
                 let repos = repos_of es;
                     fx = (if ok then [Upsert repos True] else [Upsert repos False, Sleep 3000]);
                     st2 = (if ok then st\<lparr>collected := collected st + int (length repos)\<rparr> else st);
                     st3 = st2\<lparr>after := endCursor (pageInfo s)\<rparr>
                 in if \<not> hasNextPage (pageInfo s) then (fx, st3, Break NoNextPage)
                    else if falsy (after st3) then (fx @ [Sleep 200], st3, Break NoCursor)
                    else (fx @ [Sleep 200], st3, Continue)))"

text \<open>Lines 94 to 167: the body of the \<^verbatim>\<open>while\<close> loop.\<close>

definition body :: "crawl_state \<Rightarrow> iter_env \<Rightarrow> effect list \<times> crawl_state \<times> ctl" where
  "body st ev =
     (let st1 = st\<lparr>page := page st + 1\<rparr>;
          req = Request (after st) PAGE_SIZE
      in case call ev of
           Inl err \<Rightarrow> ([req], st1, Break (FatalError err))
         | Inr d \<Rightarrow>
             if errors d \<noteq> None then ([req, Sleep 5000], st1, Continue)
             else
               (case data d of
                  None \<Rightarrow> ([req], st1, Throw)
                | Some p \<Rightarrow>
                    (case rate_wait (rateLimit p) (now ev) of
                       Some wait \<Rightarrow> ([req, Sleep wait], st1, Continue)
                     | None \<Rightarrow>
                         (case page_stage st1 (search p) (upsert_ok ev) of
                            (fx, st', c) \<Rightarrow> (req # fx, st', c)))))"

subsection \<open>The loop and the process\<close>

text \<open>
  The loop runs over the answers of the outside world, one per iteration. It may go on
  for ever (a service that always answers with errors); a finite list of answers that
  ends before the loop does leaves it \<open>Pending\<close>.
\<close>

datatype loop_end = TargetReached | Broke stop | Threw | Pending

fun loop :: "int \<Rightarrow> crawl_state \<Rightarrow> iter_env list \<Rightarrow> effect list \<times> crawl_state \<times> loop_end" where
  "loop target st [] =
     (if collected st < target then ([], st, Pending) else ([], st, TargetReached))"
| "loop target st (ev # evs) =
     (if collected st < target then
        (case body st ev of
           (fx, st', Continue) \<Rightarrow>
             (case loop target st' evs of (fx', st'', e) \<Rightarrow> (fx @ fx', st'', e))
         | (fx, st', Break why) \<Rightarrow> (fx, st', Broke why)
         | (fx, st', Throw) \<Rightarrow> (fx, st', Threw))
      else ([], st, TargetReached))"

text \<open>
  Lines 84 to 177. \<^verbatim>\<open>ensureSchema\<close> and \<^verbatim>\<open>closePool\<close> belong to the storage
  layer and may reject. A rejection of \<^verbatim>\<open>main()\<close> reaches the handler of line 174,
  which exits with code 1; when \<^verbatim>\<open>main()\<close> resolves nothing sets an exit code and
  the process ends with code 0. The first argument of \<open>main\<close> is
  \<^verbatim>\<open>TARGET_REPOS\<close> (line 14).
\<close>

record world =
  ensureSchema_ok :: bool
  iters :: "iter_env list"
  closePool_ok :: bool

text \<open>
  What a run shows: the calls of \<open>main\<close> in order, the crawl state at its end, how the
  loop ended
  (\<open>None\<close> when it never started) and the exit code (\<open>None\<close> while the process is
  still running).
\<close>

record run =
  effects :: "effect list"
  final :: crawl_state
  ended :: "loop_end option"
  exit_code :: "nat option"

definition main :: "int \<Rightarrow> world \<Rightarrow> run" where
  "main target w =
     (if \<not> ensureSchema_ok w then
        \<lparr>effects = [EnsureSchema], final = initial, ended = None, exit_code = Some 1\<rparr>
      else
        (case loop target initial (iters w) of
           (fx, st, Pending) \<Rightarrow>
             \<lparr>effects = EnsureSchema # fx, final = st, ended = Some Pending,
              exit_code = None\<rparr>
         | (fx, st, Threw) \<Rightarrow>
             \<lparr>effects = EnsureSchema # fx, final = st, ended = Some Threw,
              exit_code = Some 1\<rparr>
         | (fx, st, e) \<Rightarrow>
             \<lparr>effects = EnsureSchema # fx @ [ClosePool], final = st, ended = Some e,
              exit_code = Some (if closePool_ok w then 0 else 1)\<rparr>))"

subsection \<open>Conditions on the answers of the outside world\<close>

text \<open>
  Line 114 reads \<^verbatim>\<open>data.data.rateLimit\<close>: a response with neither
  \<^verbatim>\<open>errors\<close> nor \<^verbatim>\<open>data\<close> raises a \<^verbatim>\<open>TypeError\<close> there, outside
  every \<^verbatim>\<open>try\<close>.
\<close>

definition malformed :: "iter_env \<Rightarrow> bool" where
  "malformed ev = (case call ev of Inl e \<Rightarrow> False | Inr d \<Rightarrow> errors d = None \<and> data d = None)"

text \<open>
  The request asks for \<^verbatim>\<open>first: PAGE_SIZE\<close>; a service that honours it returns
  at most that many edges.
\<close>

definition within_page_size :: "iter_env \<Rightarrow> bool" where
  "within_page_size ev =
     (case call ev of
        Inl e \<Rightarrow> True
      | Inr d \<Rightarrow>
          (case data d of
             None \<Rightarrow> True
           | Some p \<Rightarrow>
               (case search p of
                  None \<Rightarrow> True
                | Some s \<Rightarrow>
                    (case edges s of None \<Rightarrow> True | Some es \<Rightarrow> length es \<le> PAGE_SIZE))))"

text \<open>
  The condition of line 128: \<^verbatim>\<open>!search || !search.edges || search.edges.length === 0\<close>.
\<close>

definition no_results :: "search_result option \<Rightarrow> bool" where
  "no_results so =
     (case so of
        None \<Rightarrow> True
      | Some s \<Rightarrow> (case edges s of None \<Rightarrow> True | Some es \<Rightarrow> length es = 0))"

section \<open>The retry wrapper\<close>

text \<open>
  \<^verbatim>\<open>callGithub\<close> (lines 55 to 82) hands a callback to \<^verbatim>\<open>retry\<close> of the package
  \<^verbatim>\<open>async-retry\<close>, with the options \<^verbatim>\<open>retries: 5, minTimeout: 1000, factor: 2\<close>.
  The callback is in the source. The package is a dependency and not part of the
  repository; what it does with the callback is written here after the package and the
  package \<^verbatim>\<open>retry\<close> it builds on:
  \<^item> the operation makes a first attempt and up to \<^verbatim>\<open>retries\<close> further ones;
  \<^item> the delays are computed when the operation is created, the one before retry \<open>k\<close>
    as \<^verbatim>\<open>Math.round(random * Math.max(minTimeout, 1) * Math.pow(factor, k - 1))\<close>
    with \<^verbatim>\<open>random = Math.random() + 1\<close>, since \<^verbatim>\<open>async-retry\<close> sets
    \<^verbatim>\<open>randomize\<close> unless the caller does, and are then sorted;
  \<^item> \<^verbatim>\<open>bail(err)\<close> rejects the promise and does nothing else; an attempt that
    throws is retried while delays are left, also after \<^verbatim>\<open>bail\<close>;
  \<^item> when no delay is left the promise is rejected with \<^verbatim>\<open>mainError()\<close>, the error
    whose message was counted most often, the later one on a tie;
  \<^item> a promise settles once: later calls of \<^verbatim>\<open>resolve\<close> and \<^verbatim>\<open>reject\<close> are
    without effect.
\<close>

subsection \<open>The callback\<close>

text \<open>
  What \<^verbatim>\<open>axios.post\<close> does in one attempt: it resolves with a status and a body, or
  rejects with a message and, when the server answered, \<^verbatim>\<open>err.response.status\<close>.
\<close>

datatype attempt_outcome =
    Resolved nat response
  | Rejected string "nat option"

text \<open>
  How the callback ends (lines 58 to 76). On status 401 it calls \<^verbatim>\<open>bail\<close> and,
  with no \<^verbatim>\<open>return\<close> after it, goes on to line 75 and throws the original error.
\<close>

datatype fn_result =
    Returns response
  | Throws gh_error
  | BailsThenThrows gh_error gh_error

definition attempt_fn :: "attempt_outcome \<Rightarrow> fn_result" where
  "attempt_fn oc =
     (case oc of
        Resolved status d \<Rightarrow> if status \<ge> 500 then Throws (ServerError status) else Returns d
      | Rejected msg st \<Rightarrow>
          if st = Some 401 then BailsThenThrows Unauthorized (AxiosError msg st)
          else Throws (AxiosError msg st))"

text \<open>The error of an attempt that fails without calling \<^verbatim>\<open>bail\<close>.\<close>

definition failure :: "attempt_outcome \<Rightarrow> gh_error option" where
  "failure oc = (case attempt_fn oc of Throws e \<Rightarrow> Some e | _ \<Rightarrow> None)"

subsection \<open>Messages and the main error\<close>

text \<open>
  The property \<^verbatim>\<open>message\<close> of an error; line 67 builds it from the status in
  decimal.
\<close>

function show_nat :: "nat \<Rightarrow> string" where
  "show_nat n =
     (if n < 10 then [char_of (48 + n)] else show_nat (n div 10) @ [char_of (48 + n mod 10)])"
  by pat_completeness auto
termination
  by (relation "measure id") auto

definition message :: "gh_error \<Rightarrow> string" where
  "message e =
     (case e of
        ServerError status \<Rightarrow> ''Server error '' @ show_nat status
      | Unauthorized \<Rightarrow> ''Unauthorized - check token''
      | AxiosError msg st \<Rightarrow> msg)"

text \<open>
  \<^verbatim>\<open>mainError()\<close> goes through the recorded errors in order, counts them by
  message, and keeps an error whenever its count is at least the best count so far.
\<close>

fun main_error_from ::
  "(string \<rightharpoonup> nat) \<Rightarrow> gh_error option \<Rightarrow> nat \<Rightarrow> gh_error list \<Rightarrow> gh_error option" where
  "main_error_from counts mainErr mainCount [] = mainErr"
| "main_error_from counts mainErr mainCount (e # es) =
     (let count = (case counts (message e) of None \<Rightarrow> 0 | Some c \<Rightarrow> c) + 1;
          counts' = counts(message e \<mapsto> count)
      in if count \<ge> mainCount then main_error_from counts' (Some e) count es
         else main_error_from counts' mainErr mainCount es)"

definition mainError :: "gh_error list \<Rightarrow> gh_error option" where
  "mainError errs = main_error_from Map.empty None 0 errs"

subsection \<open>The delays\<close>

record retry_options =
  retries :: nat
  minTimeout :: real
  factor :: real

text \<open>
  The argument \<open>u\<close> is the value of \<^verbatim>\<open>Math.random()\<close>, \<open>attempt\<close> counts from 0.
  \<^verbatim>\<open>maxTimeout\<close> is not set and defaults to \<^verbatim>\<open>Infinity\<close>.
\<close>

definition createTimeout :: "retry_options \<Rightarrow> nat \<Rightarrow> real \<Rightarrow> int" where
  "createTimeout opts attempt u = round ((u + 1) * max (minTimeout opts) 1 * factor opts ^ attempt)"

definition timeouts :: "retry_options \<Rightarrow> (nat \<Rightarrow> real) \<Rightarrow> int list" where
  "timeouts opts rnd = sort (map (\<lambda>i. createTimeout opts i (rnd i)) [0..<retries opts])"

subsection \<open>The operation\<close>

text \<open>
  What the wrapper does, in order: it invokes the transport client (attempt number
  \<open>num\<close>), waits before a retry, settles the promise that \<^verbatim>\<open>callGithub\<close> returned.
\<close>

datatype wrapper_event =
    Attempt nat
  | Backoff int
  | Settled "gh_error + response"

text \<open>
  The attempts run over the outcomes of \<^verbatim>\<open>axios.post\<close>, one per attempt; when
  the outcomes run out the operation is left waiting. The arguments are the delays left,
  the errors recorded so far, the number of the attempt and whether the promise is
  settled already. (An error has just been recorded when \<^verbatim>\<open>mainError()\<close> is
  called, so that its result is never \<^verbatim>\<open>null\<close>.)
\<close>

fun runAttempt ::
  "int list \<Rightarrow> gh_error list \<Rightarrow> nat \<Rightarrow> bool \<Rightarrow> attempt_outcome list \<Rightarrow> wrapper_event list" where
  "runAttempt touts errs num settled [] = []"
| "runAttempt touts errs num settled (oc # ocs) =
     (case attempt_fn oc of
        Returns d \<Rightarrow> Attempt num # (if settled then [] else [Settled (Inr d)])
      | Throws e \<Rightarrow>
          (case touts of
             [] \<Rightarrow>
               Attempt num #
               (if settled then []
                else [Settled (Inl (case mainError (errs @ [e]) of None \<Rightarrow> e | Some m \<Rightarrow> m))])
           | t # ts \<Rightarrow> Attempt num # Backoff t # runAttempt ts (errs @ [e]) (num + 1) settled ocs)
      | BailsThenThrows b e \<Rightarrow>
          (case touts of
             [] \<Rightarrow> Attempt num # (if settled then [] else [Settled (Inl b)])
           | t # ts \<Rightarrow>
               Attempt num # (if settled then [] else [Settled (Inl b)]) @
               Backoff t # runAttempt ts (errs @ [e]) (num + 1) True ocs))"

definition retry :: "retry_options \<Rightarrow> (nat \<Rightarrow> real) \<Rightarrow> attempt_outcome list \<Rightarrow> wrapper_event list" where
  "retry opts rnd ocs = runAttempt (timeouts opts rnd) [] 1 False ocs"

text \<open>Lines 77 to 81.\<close>

definition options :: retry_options where
  "options = \<lparr>retries = 5, minTimeout = 1000, factor = 2\<rparr>"

definition callGithub :: "(nat \<Rightarrow> real) \<Rightarrow> attempt_outcome list \<Rightarrow> wrapper_event list" where
  "callGithub rnd ocs = retry options rnd ocs"

text \<open>What \<^verbatim>\<open>await callGithub(variables)\<close> yields: the first settlement, if any.\<close>

fun settlement :: "wrapper_event list \<Rightarrow> (gh_error + response) option" where
  "settlement [] = None"
| "settlement (Settled r # evs) = Some r"
| "settlement (ev # evs) = settlement evs"

text \<open>The invocations of the transport client and the waits, without the settlements.\<close>

fun wire :: "wrapper_event list \<Rightarrow> wrapper_event list" where
  "wire [] = []"
| "wire (Settled r # evs) = wire evs"
| "wire (ev # evs) = ev # wire evs"

fun attempts_of :: "wrapper_event list \<Rightarrow> nat list" where
  "attempts_of [] = []"
| "attempts_of (Attempt n # evs) = n # attempts_of evs"
| "attempts_of (ev # evs) = attempts_of evs"

text \<open>The longest course an operation can take: every attempt, with the delay before it.\<close>

fun schedule :: "nat \<Rightarrow> int list \<Rightarrow> wrapper_event list" where
  "schedule num [] = [Attempt num]"
| "schedule num (t # ts) = Attempt num # Backoff t # schedule (num + 1) ts"

text \<open>How often a message occurs among the errors of an operation.\<close>

definition occurrences :: "string \<Rightarrow> gh_error list \<Rightarrow> nat" where
  "occurrences s es = length (filter (\<lambda>e. message e = s) es)"

subsection \<open>Example outcomes\<close>

definition timed_out :: attempt_outcome where
  "timed_out = Rejected ''timeout of 20000ms exceeded'' None"

definition bad_gateway :: attempt_outcome where
  "bad_gateway = Rejected ''Request failed with status code 502'' (Some 502)"

definition unauthorized :: attempt_outcome where
  "unauthorized = Rejected ''Request failed with status code 401'' (Some 401)"

definition mixed_failures :: "attempt_outcome list" where
  "mixed_failures = [timed_out, timed_out, timed_out, timed_out, bad_gateway, bad_gateway]"

section \<open>Example inputs of the loop\<close>

text \<open>Two nodes, one with every field and one with the optional fields missing.\<close>

definition node_full :: node where
  "node_full =
     \<lparr>node_id = ''R_1'', databaseId = Some 1, node_name = ''a'', node_url = ''u1'',
      stargazerCount = Some 5, node_owner = Some \<lparr>login = Some ''o''\<rparr>\<rparr>"

definition node_bare :: node where
  "node_bare =
     \<lparr>node_id = ''R_2'', databaseId = None, node_name = ''b'', node_url = ''u2'',
      stargazerCount = None, node_owner = None\<rparr>"

text \<open>Quota snapshots: plenty left, and 5 left with the reset 30 s after \<open>now = 1000000\<close>.\<close>

definition quota_ok :: rateLimit_t where
  "quota_ok = \<lparr>limit = 5000, cost = 1, remaining = 4999, resetAt = 3600000\<rparr>"

definition quota_low :: rateLimit_t where
  "quota_low = \<lparr>limit = 5000, cost = 1, remaining = 5, resetAt = 1030000\<rparr>"

text \<open>Responses.\<close>

definition page_two_nodes :: response where
  "page_two_nodes =
     \<lparr>errors = None,
      data = Some \<lparr>rateLimit = Some quota_ok,
        search = Some \<lparr>edges = Some [node_full, node_bare],
          pageInfo = \<lparr>endCursor = Some ''c1'', hasNextPage = True\<rparr>\<rparr>\<rparr>\<rparr>"

definition no_quota_page :: response where
  "no_quota_page =
     \<lparr>errors = None,
      data = Some \<lparr>rateLimit = None,
        search = Some \<lparr>edges = Some [node_full, node_bare],
          pageInfo = \<lparr>endCursor = Some ''c1'', hasNextPage = True\<rparr>\<rparr>\<rparr>\<rparr>"

definition full_page :: response where
  "full_page =
     \<lparr>errors = None,
      data = Some \<lparr>rateLimit = Some quota_ok,
        search = Some \<lparr>edges = Some (replicate 100 node_full),
          pageInfo = \<lparr>endCursor = Some ''c1'', hasNextPage = True\<rparr>\<rparr>\<rparr>\<rparr>"

definition empty_search :: search_result where
  "empty_search =
     \<lparr>edges = Some [], pageInfo = \<lparr>endCursor = Some ''c2'', hasNextPage = True\<rparr>\<rparr>"

definition empty_page :: response where
  "empty_page =
     \<lparr>errors = None,
      data = Some \<lparr>rateLimit = Some quota_ok, search = Some empty_search\<rparr>\<rparr>"

definition low_quota_page :: response where
  "low_quota_page =
     \<lparr>errors = None,
      data = Some \<lparr>rateLimit = Some quota_low, search = Some empty_search\<rparr>\<rparr>"

definition low_quota_with_errors :: response where
  "low_quota_with_errors = low_quota_page\<lparr>errors := Some [''Something went wrong'']\<rparr>"

definition errors_only :: response where
  "errors_only = \<lparr>errors = Some [''Something went wrong''], data = None\<rparr>"

definition no_payload :: response where
  "no_payload = \<lparr>errors = None, data = None\<rparr>"

text \<open>A crawl state in the middle of a crawl, and answers of the outside world.\<close>

definition at_cursor :: crawl_state where
  "at_cursor = \<lparr>collected = 200, after = Some ''c0'', page = 2\<rparr>"

definition answer :: "response \<Rightarrow> iter_env" where
  "answer d = \<lparr>call = Inr d, now = 1000000, upsert_ok = True\<rparr>"

definition upsert_fails :: iter_env where
  "upsert_fails = \<lparr>call = Inr page_two_nodes, now = 0, upsert_ok = False\<rparr>"

definition unauthorized_call :: iter_env where
  "unauthorized_call = \<lparr>call = Inl Unauthorized, now = 0, upsert_ok = True\<rparr>"

definition exhausted_call :: iter_env where
  "exhausted_call =
     \<lparr>call = Inl (AxiosError ''timeout of 20000ms exceeded'' None), now = 0,
      upsert_ok = True\<rparr>"

text \<open>Whole runs.\<close>

definition unauthorized_world :: world where
  "unauthorized_world =
     \<lparr>ensureSchema_ok = True, iters = [unauthorized_call], closePool_ok = True\<rparr>"

definition exhausted_world :: world where
  "exhausted_world =
     \<lparr>ensureSchema_ok = True, iters = [answer page_two_nodes, exhausted_call],
      closePool_ok = True\<rparr>"

definition schema_fails_world :: world where
  "schema_fails_world =
     \<lparr>ensureSchema_ok = False, iters = [answer page_two_nodes], closePool_ok = True\<rparr>"

definition no_payload_world :: world where
  "no_payload_world =
     \<lparr>ensureSchema_ok = True, iters = [answer no_payload], closePool_ok = True\<rparr>"

definition full_page_world :: world where
  "full_page_world =
     \<lparr>ensureSchema_ok = True, iters = [answer full_page], closePool_ok = True\<rparr>"

section \<open>Properties of the loop\<close>

subsection \<open>The cases of one iteration\<close>

lemma page_stage_effects:
  "fst (page_stage st so ok) = [] \<or>
   (\<exists>es fx. fst (page_stage st so ok) = Upsert (repos_of es) ok # fx \<and> set fx \<subseteq> {Sleep 3000, Sleep 200})"
  by (auto simp: page_stage_def Let_def split: option.splits)

lemma page_stage_no_close: "ClosePool \<notin> set (fst (page_stage st so ok))"
  using page_stage_effects[of st so ok] by auto

lemma page_stage_no_throw: "snd (snd (page_stage st so ok)) \<noteq> Throw"
  by (auto simp: page_stage_def Let_def split: option.splits)

lemma body_cases:
  obtains (fatal) e where "call ev = Inl e"
      "body st ev = ([Request (after st) PAGE_SIZE], st\<lparr>page := page st + 1\<rparr>, Break (FatalError e))"
  | (errors) d where "call ev = Inr d" "errors d \<noteq> None"
      "body st ev = ([Request (after st) PAGE_SIZE, Sleep 5000], st\<lparr>page := page st + 1\<rparr>, Continue)"
  | (malformed) d where "call ev = Inr d" "errors d = None" "data d = None"
      "body st ev = ([Request (after st) PAGE_SIZE], st\<lparr>page := page st + 1\<rparr>, Throw)"
  | (limited) d p wait where "call ev = Inr d" "errors d = None" "data d = Some p"
      "rate_wait (rateLimit p) (now ev) = Some wait"
      "body st ev = ([Request (after st) PAGE_SIZE, Sleep wait], st\<lparr>page := page st + 1\<rparr>, Continue)"
  | (page) d p fx st' c where "call ev = Inr d" "errors d = None" "data d = Some p"
      "rate_wait (rateLimit p) (now ev) = None"
      "page_stage (st\<lparr>page := page st + 1\<rparr>) (search p) (upsert_ok ev) = (fx, st', c)"
      "body st ev = (Request (after st) PAGE_SIZE # fx, st', c)"
proof (cases "call ev")
  case (Inl e)
  then show ?thesis using fatal by (simp add: body_def)
next
  case (Inr d)
  show ?thesis
  proof (cases "errors d")
    case (Some a)
    then show ?thesis using Inr errors by (simp add: body_def)
  next
    case None
    note noerr = this
    show ?thesis
    proof (cases "data d")
      case None
      then show ?thesis using Inr noerr malformed by (simp add: body_def)
    next
      case (Some p)
      show ?thesis
      proof (cases "rate_wait (rateLimit p) (now ev)")
        case (Some wait)
        then show ?thesis using Inr noerr \<open>data d = Some p\<close> limited
          by (simp add: body_def)
      next
        case None
        obtain fx st' c where "page_stage (st\<lparr>page := page st + 1\<rparr>) (search p) (upsert_ok ev) = (fx, st', c)"
          by (cases "page_stage (st\<lparr>page := page st + 1\<rparr>) (search p) (upsert_ok ev)") 
        then show ?thesis using Inr noerr \<open>data d = Some p\<close> None page[of d p fx st' c]
          by (simp add: body_def)
      qed
    qed
  qed
qed

lemma body_request: "\<exists>fx. fst (body st ev) = Request (after st) PAGE_SIZE # fx"
  by (cases ev st rule: body_cases) auto

lemma body_no_close: "ClosePool \<notin> set (fst (body st ev))"
proof (cases ev st rule: body_cases)
  case (page d p fx st' c)
  then show ?thesis using page_stage_no_close[of "st\<lparr>page := page st + 1\<rparr>" "search p" "upsert_ok ev"] by simp
qed auto

lemma body_throw: "snd (snd (body st ev)) = Throw \<Longrightarrow> malformed ev"
proof (cases ev st rule: body_cases)
  case (page d p fx st' c)
  assume "snd (snd (body st ev)) = Throw"
  then show ?thesis using page page_stage_no_throw[of "st\<lparr>page := page st + 1\<rparr>" "search p" "upsert_ok ev"] by simp
qed (auto simp: malformed_def)

lemma loop_no_close: "ClosePool \<notin> set (fst (loop target st evs))"
proof (induction evs arbitrary: st)
  case Nil
  then show ?case by simp
next
  case (Cons ev evs)
  show ?case
  proof (cases "collected st < target")
    case False
    then show ?thesis by simp
  next
    case True
    obtain fx st' c where b: "body st ev = (fx, st', c)" by (cases "body st ev") 
    have nc: "ClosePool \<notin> set fx" using body_no_close[of st ev] b by simp
    show ?thesis
    proof (cases c)
      case Continue
      obtain fx' st'' e where l: "loop target st' evs = (fx', st'', e)" by (cases "loop target st' evs")
      have "ClosePool \<notin> set fx'" using Cons.IH[of st'] l by simp
      then show ?thesis using True b Continue l nc by simp
    next
      case (Break why)
      then show ?thesis using True b nc by simp
    next
      case Throw
      then show ?thesis using True b nc by simp
    qed
  qed
qed

lemma loop_threw: "snd (snd (loop target st evs)) = Threw \<Longrightarrow> \<exists>ev\<in>set evs. malformed ev"
proof (induction evs arbitrary: st)
  case Nil
  then show ?case by (simp split: if_splits)
next
  case (Cons ev evs)
  show ?case
  proof (cases "collected st < target")
    case False
    then show ?thesis using Cons.prems by simp
  next
    case True
    obtain fx st' c where b: "body st ev = (fx, st', c)" by (cases "body st ev") 
    show ?thesis
    proof (cases c)
      case Continue
      obtain fx' st'' e where l: "loop target st' evs = (fx', st'', e)" by (cases "loop target st' evs")
      have "e = Threw" using Cons.prems True b Continue l by simp
      then have "\<exists>ev\<in>set evs. malformed ev" using Cons.IH[of st'] l by simp
      then show ?thesis by auto
    next
      case (Break why)
      then show ?thesis using True b Cons.prems by simp
    next
      case Throw
      then have "malformed ev" using body_throw[of st ev] b by simp
      then show ?thesis by simp
    qed
  qed
qed

lemma loop_first_request:
  assumes "collected st < target"
  shows "\<exists>fx st' e. loop target st (ev # evs) = (Request (after st) PAGE_SIZE # fx, st', e)"
proof -
  obtain fx1 st1 c where b: "body st ev = (fx1, st1, c)" by (cases "body st ev")
  obtain fx0 where f: "fx1 = Request (after st) PAGE_SIZE # fx0" using body_request[of st ev] b by auto
  show ?thesis
  proof (cases c)
    case Continue
    obtain fx2 st2 e where l: "loop target st1 evs = (fx2, st2, e)" by (cases "loop target st1 evs")
    then show ?thesis using assms b f Continue by simp
  next
    case (Break why)
    then show ?thesis using assms b f by simp
  next
    case Throw
    then show ?thesis using assms b f by simp
  qed
qed

subsection \<open>The run as a whole\<close>

lemma main_unfold:
  "main target w =
     (if \<not> ensureSchema_ok w then
        \<lparr>effects = [EnsureSchema], final = initial, ended = None, exit_code = Some 1\<rparr>
      else
        (let r = loop target initial (iters w); fx = fst r; st = fst (snd r); e = snd (snd r) in
         if e = Pending then \<lparr>effects = EnsureSchema # fx, final = st, ended = Some Pending, exit_code = None\<rparr>
         else if e = Threw then \<lparr>effects = EnsureSchema # fx, final = st, ended = Some Threw, exit_code = Some 1\<rparr>
         else \<lparr>effects = EnsureSchema # fx @ [ClosePool], final = st, ended = Some e,
              exit_code = Some (if closePool_ok w then 0 else 1)\<rparr>))"
  by (cases "loop target initial (iters w)") (auto simp: main_def Let_def split: loop_end.splits)

lemma main_ended:
  "ended (main target w) = (if ensureSchema_ok w then Some (snd (snd (loop target initial (iters w)))) else None)"
  by (simp add: main_unfold Let_def)

lemma main_final:
  "final (main target w) = (if ensureSchema_ok w then fst (snd (loop target initial (iters w))) else initial)"
  by (simp add: main_unfold Let_def)

lemmas run_simps = main_def body_def page_stage_def rate_wait_def falsy_def initial_def PAGE_SIZE_def
  repos_of_def Let_def

subsection \<open>Persistence failure\<close>

text \<open>
  Claim C1 says that an iteration whose batch upsert fails leaves the counter and the
  cursor alone and sleeps 3000 ms, so that the next request uses the same cursor. The
  code does the first and the third, but line 157 runs after the \<^verbatim>\<open>catch\<close> block
  as well: on the first page (cursor \<^verbatim>\<open>null\<close>) with two records, next cursor
  \<open>c1\<close> and a failing upsert, the iteration ends with the cursor \<open>c1\<close>, and the
  next request is made with \<open>c1\<close>. The page that was not stored is not asked for again.
\<close>

theorem persistence_failure_advances_cursor:
  "body initial upsert_fails =
     ([Request None 100, Upsert (repos_of [node_full, node_bare]) False, Sleep 3000, Sleep 200],
      \<lparr>collected = 0, after = Some ''c1'', page = 1\<rparr>, Continue)
   \<and> fst (loop 100000 initial [upsert_fails, unauthorized_call]) =
     [Request None 100, Upsert (repos_of [node_full, node_bare]) False, Sleep 3000, Sleep 200,
      Request (Some ''c1'') 100]"
  by (simp add: body_def page_stage_def rate_wait_def falsy_def initial_def PAGE_SIZE_def
      upsert_fails_def unauthorized_call_def page_two_nodes_def quota_ok_def Let_def)

subsection \<open>Exit code\<close>

text \<open>
  Claim C2 says that the exit code is non-zero exactly when the crawl is aborted by an
  unauthorized or a retry-exhausted transport failure. The \<^verbatim>\<open>catch\<close> of line 101
  turns both into a \<^verbatim>\<open>break\<close>: the run goes on to \<^verbatim>\<open>closePool\<close> and ends
  with code 0. Code 1 comes from a rejection of \<^verbatim>\<open>main()\<close>, as when
  \<^verbatim>\<open>ensureSchema\<close> fails.
\<close>

theorem fatal_transport_failure_exits_zero:
  "call unauthorized_call = Inl Unauthorized
   \<and> main 100000 unauthorized_world =
       \<lparr>effects = [EnsureSchema, Request None 100, ClosePool],
        final = \<lparr>collected = 0, after = None, page = 1\<rparr>,
        ended = Some (Broke (FatalError Unauthorized)), exit_code = Some 0\<rparr>
   \<and> exit_code (main 100000 exhausted_world) = Some 0
   \<and> exit_code (main 100000 schema_fails_world) = Some 1"
  by (simp add: quota_ok_def page_two_nodes_def answer_def unauthorized_call_def
      exhausted_call_def unauthorized_world_def exhausted_world_def schema_fails_world_def
      run_simps)

text \<open>
  Claim C2, amended: the exit code is non-zero exactly when \<^verbatim>\<open>main()\<close> rejects,
  that is when \<^verbatim>\<open>ensureSchema\<close> fails, when an exception escapes the loop body, or
  when \<^verbatim>\<open>closePool\<close> fails; it is then 1. In every other run that ends, the loop
  has ended by its condition or by a \<^verbatim>\<open>break\<close>, \<^verbatim>\<open>closePool\<close> has succeeded
  and the exit code is 0. A rejection of \<^verbatim>\<open>callGithub\<close> (unauthorized or
  retries exhausted) ends the loop by a \<^verbatim>\<open>break\<close> and so leaves the process on
  that path, and so does every other failure inside the loop: a response with
  application-level errors and a rate-limited response make the loop continue, and a
  failing upsert raises nothing.
\<close>

theorem exit_code_nonzero:
  "ended (main target w) =
     (if ensureSchema_ok w then Some (snd (snd (loop target initial (iters w)))) else None)
   \<and> (exit_code (main target w) = Some 1 \<longleftrightarrow>
        \<not> ensureSchema_ok w \<or> ended (main target w) = Some Threw
        \<or> (\<not> closePool_ok w \<and> ended (main target w) \<noteq> Some Pending))
   \<and> (exit_code (main target w) = Some 0 \<longleftrightarrow>
        ensureSchema_ok w \<and> closePool_ok w
        \<and> ended (main target w) \<noteq> Some Threw \<and> ended (main target w) \<noteq> Some Pending)
   \<and> (exit_code (main target w) = None \<longleftrightarrow>
        ensureSchema_ok w \<and> ended (main target w) = Some Pending)
   \<and> (call ev = Inl e \<longrightarrow> snd (snd (body st ev)) = Break (FatalError e))
   \<and> (collected st < target \<and> call ev = Inl e \<longrightarrow>
        snd (snd (loop target st (ev # evs))) = Broke (FatalError e))
   \<and> (ensureSchema_ok w \<and> closePool_ok w
        \<and> ended (main target w) = Some (Broke (FatalError e)) \<longrightarrow>
        exit_code (main target w) = Some 0)
   \<and> (call ev = Inr d \<and> errors d \<noteq> None \<longrightarrow> snd (snd (body st ev)) = Continue)
   \<and> (call ev = Inr d \<and> errors d = None \<and> data d = Some p \<and> rateLimit p = Some rl
        \<and> remaining rl \<le> 10 \<longrightarrow> snd (snd (body st ev)) = Continue)
   \<and> snd (snd (page_stage st so False)) \<noteq> Throw"
proof -
  have en: "ended (main target w) =
     (if ensureSchema_ok w then Some (snd (snd (loop target initial (iters w)))) else None)"
    by (rule main_ended)
  have one: "exit_code (main target w) = Some 1 \<longleftrightarrow>
        \<not> ensureSchema_ok w \<or> ended (main target w) = Some Threw
        \<or> (\<not> closePool_ok w \<and> ended (main target w) \<noteq> Some Pending)"
    by (simp add: main_unfold Let_def)
  have zero: "exit_code (main target w) = Some 0 \<longleftrightarrow>
        ensureSchema_ok w \<and> closePool_ok w
        \<and> ended (main target w) \<noteq> Some Threw \<and> ended (main target w) \<noteq> Some Pending"
    by (simp add: main_unfold Let_def)
  have none: "exit_code (main target w) = None \<longleftrightarrow>
        ensureSchema_ok w \<and> ended (main target w) = Some Pending"
    by (simp add: main_unfold Let_def)
  have fatal: "call ev = Inl e \<longrightarrow> snd (snd (body st ev)) = Break (FatalError e)"
    by (simp add: body_def)
  have fatal_loop: "collected st < target \<and> call ev = Inl e \<longrightarrow>
        snd (snd (loop target st (ev # evs))) = Broke (FatalError e)"
    by (simp add: body_def)
  have fatal_exit: "ensureSchema_ok w \<and> closePool_ok w
        \<and> ended (main target w) = Some (Broke (FatalError e)) \<longrightarrow>
        exit_code (main target w) = Some 0"
    using zero by simp
  have app: "call ev = Inr d \<and> errors d \<noteq> None \<longrightarrow> snd (snd (body st ev)) = Continue"
    by (auto simp: body_def)
  have rate: "call ev = Inr d \<and> errors d = None \<and> data d = Some p \<and> rateLimit p = Some rl
        \<and> remaining rl \<le> 10 \<longrightarrow> snd (snd (body st ev)) = Continue"
    by (simp add: body_def rate_wait_def)
  have store: "snd (snd (page_stage st so False)) \<noteq> Throw"
    by (rule page_stage_no_throw)
  show ?thesis using en one zero none fatal fatal_loop fatal_exit app rate store by blast
qed

theorem exit_code_nonzero_witness:
  "exit_code (main 100000 exhausted_world) = Some 0
   \<and> exit_code (main 1 full_page_world) = Some 0
   \<and> exit_code (main 100000 no_payload_world) = Some 1
   \<and> exit_code (main 100000 schema_fails_world) = Some 1
   \<and> snd (snd (body initial unauthorized_call)) = Break (FatalError Unauthorized)
   \<and> snd (snd (loop 100000 initial [unauthorized_call, answer page_two_nodes])) =
       Broke (FatalError Unauthorized)
   \<and> snd (snd (body at_cursor (answer errors_only))) = Continue
   \<and> snd (snd (body at_cursor (answer low_quota_page))) = Continue"
proof -
  let ?e = "AxiosError ''timeout of 20000ms exceeded'' None"
  let ?p = "\<lparr>rateLimit = Some quota_low, search = Some empty_search\<rparr>"
  have a: "ensureSchema_ok exhausted_world" "closePool_ok exhausted_world"
    "ended (main 100000 exhausted_world) = Some (Broke (FatalError ?e))"
    by (simp_all add: quota_ok_def page_two_nodes_def answer_def exhausted_call_def
        exhausted_world_def run_simps)
  have b: "ensureSchema_ok full_page_world" "closePool_ok full_page_world"
    "ended (main 1 full_page_world) = Some TargetReached"
    by (simp_all add: quota_ok_def full_page_def answer_def full_page_world_def run_simps)
  have c: "ended (main 100000 no_payload_world) = Some Threw"
    by (simp add: no_payload_def answer_def no_payload_world_def run_simps)
  have d: "\<not> ensureSchema_ok schema_fails_world"
    by (simp add: schema_fails_world_def)
  have f: "call unauthorized_call = Inl Unauthorized" "collected initial < 100000"
    by (simp_all add: unauthorized_call_def initial_def)
  have g: "call (answer errors_only) = Inr errors_only" "errors errors_only \<noteq> None"
    by (simp_all add: answer_def errors_only_def)
  have h: "call (answer low_quota_page) = Inr low_quota_page" "errors low_quota_page = None"
    "data low_quota_page = Some ?p" "rateLimit ?p = Some quota_low" "remaining quota_low \<le> 10"
    by (simp_all add: answer_def low_quota_page_def quota_low_def)
  have 1: "exit_code (main 100000 exhausted_world) = Some 0"
    using exit_code_nonzero [of 100000 exhausted_world] a by simp
  have 2: "exit_code (main 1 full_page_world) = Some 0"
    using exit_code_nonzero [of 1 full_page_world] b by simp
  have 3: "exit_code (main 100000 no_payload_world) = Some 1"
    using exit_code_nonzero [of 100000 no_payload_world] c by simp
  have 4: "exit_code (main 100000 schema_fails_world) = Some 1"
    using exit_code_nonzero [of 100000 schema_fails_world] d by simp
  have 5: "snd (snd (body initial unauthorized_call)) = Break (FatalError Unauthorized)"
    using exit_code_nonzero [of _ _ unauthorized_call Unauthorized initial] f(1) by blast
  have 6: "snd (snd (loop 100000 initial [unauthorized_call, answer page_two_nodes])) =
       Broke (FatalError Unauthorized)"
    using exit_code_nonzero [of 100000 _ unauthorized_call Unauthorized initial
        "[answer page_two_nodes]"] f by blast
  have 7: "snd (snd (body at_cursor (answer errors_only))) = Continue"
    using exit_code_nonzero [of _ _ "answer errors_only" _ at_cursor _ errors_only] g by blast
  have 8: "snd (snd (body at_cursor (answer low_quota_page))) = Continue"
    using exit_code_nonzero [of _ _ "answer low_quota_page" _ at_cursor _ low_quota_page ?p
        quota_low] h by blast
  show ?thesis using 1 2 3 4 5 6 7 8 by blast
qed

subsection \<open>Release of the storage resources\<close>

text \<open>
  Claim C3 says that \<^verbatim>\<open>closePool\<close> is invoked on every exit path, exceptions
  included. The call is the last statement of \<^verbatim>\<open>main\<close> and there is no
  \<^verbatim>\<open>finally\<close>: when \<^verbatim>\<open>ensureSchema\<close> rejects, or an exception escapes
  the loop body, the process exits with code 1 and \<^verbatim>\<open>closePool\<close> was never called.
\<close>

theorem closePool_skipped_on_exception:
  "main 100000 schema_fails_world =
     \<lparr>effects = [EnsureSchema], final = initial, ended = None, exit_code = Some 1\<rparr>
   \<and> main 100000 no_payload_world =
     \<lparr>effects = [EnsureSchema, Request None 100],
      final = \<lparr>collected = 0, after = None, page = 1\<rparr>, ended = Some Threw, exit_code = Some 1\<rparr>
   \<and> ClosePool \<notin> set (effects (main 100000 schema_fails_world))
   \<and> ClosePool \<notin> set (effects (main 100000 no_payload_world))"
  by (simp add: quota_ok_def page_two_nodes_def no_payload_def answer_def
      schema_fails_world_def no_payload_world_def run_simps)

text \<open>
  Claim C3, amended: \<^verbatim>\<open>main\<close> invokes \<^verbatim>\<open>closePool\<close> exactly on the exit
  paths on which the loop ends by its condition or by a \<^verbatim>\<open>break\<close> (target
  reached, rejection of \<^verbatim>\<open>callGithub\<close>, no results, last page, missing cursor),
  and then exactly once, after \<^verbatim>\<open>ensureSchema\<close> and after every call that the loop
  has made of \<^verbatim>\<open>callGithub\<close>, \<^verbatim>\<open>sleep\<close> and \<^verbatim>\<open>upsertRepos\<close>; the
  process ends only after that call. When \<^verbatim>\<open>ensureSchema\<close> rejects or an exception
  escapes the loop body the process exits with code 1 without \<^verbatim>\<open>closePool\<close> ever
  being invoked. The statement is about the calls of \<^verbatim>\<open>main\<close>: it says nothing
  about requests that a retry operation may still send on its own after the call of
  \<^verbatim>\<open>callGithub\<close> that started it has been rejected.
\<close>

theorem closePool_on_normal_end:
  "(ClosePool \<in> set (effects (main target w)) \<longleftrightarrow>
      ensureSchema_ok w \<and> ended (main target w) \<noteq> Some Threw
      \<and> ended (main target w) \<noteq> Some Pending)
   \<and> (ClosePool \<in> set (effects (main target w)) \<longrightarrow>
        effects (main target w) =
          EnsureSchema # fst (loop target initial (iters w)) @ [ClosePool]
        \<and> ClosePool \<notin> set (EnsureSchema # fst (loop target initial (iters w)))
        \<and> exit_code (main target w) \<noteq> None)
   \<and> (exit_code (main target w) = Some 0 \<longrightarrow> ClosePool \<in> set (effects (main target w)))
   \<and> (\<not> ensureSchema_ok w \<or> ended (main target w) = Some Threw \<longrightarrow>
        exit_code (main target w) = Some 1 \<and> ClosePool \<notin> set (effects (main target w)))"
proof -
  have nc: "ClosePool \<notin> set (fst (loop target initial (iters w)))" by (rule loop_no_close)
  have a: "ClosePool \<in> set (effects (main target w)) \<longleftrightarrow>
      ensureSchema_ok w \<and> ended (main target w) \<noteq> Some Threw
      \<and> ended (main target w) \<noteq> Some Pending"
    using nc by (simp add: main_unfold Let_def)
  have b: "ClosePool \<in> set (effects (main target w)) \<longrightarrow>
        effects (main target w) =
          EnsureSchema # fst (loop target initial (iters w)) @ [ClosePool]
        \<and> ClosePool \<notin> set (EnsureSchema # fst (loop target initial (iters w)))
        \<and> exit_code (main target w) \<noteq> None"
    using nc by (simp add: main_unfold Let_def split: if_splits)
  have z: "exit_code (main target w) = Some 0 \<longrightarrow> ClosePool \<in> set (effects (main target w))"
    by (simp add: main_unfold Let_def split: if_splits)
  have c: "\<not> ensureSchema_ok w \<or> ended (main target w) = Some Threw \<longrightarrow>
        exit_code (main target w) = Some 1 \<and> ClosePool \<notin> set (effects (main target w))"
    using nc by (simp add: main_unfold Let_def)
  show ?thesis using a b z c by blast
qed

theorem closePool_on_normal_end_witness:
  "effects (main 1 full_page_world) =
     [EnsureSchema, Request None 100, Upsert (repos_of (replicate 100 node_full)) True,
      Sleep 200, ClosePool]
   \<and> effects (main 100000 exhausted_world) =
     [EnsureSchema, Request None 100, Upsert (repos_of [node_full, node_bare]) True, Sleep 200,
      Request (Some ''c1'') 100, ClosePool]
   \<and> exit_code (main 100000 no_payload_world) = Some 1
   \<and> ClosePool \<notin> set (effects (main 100000 no_payload_world))
   \<and> exit_code (main 100000 schema_fails_world) = Some 1
   \<and> ClosePool \<notin> set (effects (main 100000 schema_fails_world))"
proof -
  let ?e = "AxiosError ''timeout of 20000ms exceeded'' None"
  have a: "ensureSchema_ok full_page_world"
    "ended (main 1 full_page_world) = Some TargetReached"
    "fst (loop 1 initial (iters full_page_world)) =
       [Request None 100, Upsert (repos_of (replicate 100 node_full)) True, Sleep 200]"
    by (simp_all add: quota_ok_def full_page_def answer_def full_page_world_def run_simps)
  have b: "ensureSchema_ok exhausted_world"
    "ended (main 100000 exhausted_world) = Some (Broke (FatalError ?e))"
    "fst (loop 100000 initial (iters exhausted_world)) =
       [Request None 100, Upsert (repos_of [node_full, node_bare]) True, Sleep 200,
        Request (Some ''c1'') 100]"
    by (simp_all add: quota_ok_def page_two_nodes_def answer_def exhausted_call_def
        exhausted_world_def run_simps)
  have c: "ended (main 100000 no_payload_world) = Some Threw"
    by (simp add: no_payload_def answer_def no_payload_world_def run_simps)
  have d: "\<not> ensureSchema_ok schema_fails_world"
    by (simp add: schema_fails_world_def)
  have 1: "effects (main 1 full_page_world) =
     [EnsureSchema, Request None 100, Upsert (repos_of (replicate 100 node_full)) True,
      Sleep 200, ClosePool]"
    using closePool_on_normal_end [of 1 full_page_world] a by simp
  have 2: "effects (main 100000 exhausted_world) =
     [EnsureSchema, Request None 100, Upsert (repos_of [node_full, node_bare]) True, Sleep 200,
      Request (Some ''c1'') 100, ClosePool]"
    using closePool_on_normal_end [of 100000 exhausted_world] b by simp
  have 3: "exit_code (main 100000 no_payload_world) = Some 1
     \<and> ClosePool \<notin> set (effects (main 100000 no_payload_world))"
    using closePool_on_normal_end [of 100000 no_payload_world] c by blast
  have 4: "exit_code (main 100000 schema_fails_world) = Some 1
     \<and> ClosePool \<notin> set (effects (main 100000 schema_fails_world))"
    using closePool_on_normal_end [of 100000 schema_fails_world] d by blast
  show ?thesis using 1 2 3 4 by blast
qed

subsection \<open>Rate limit\<close>

text \<open>
  Claim C5 says that every response whose quota snapshot has \<open>remaining \<le> 10\<close> makes
  the loop sleep \<open>max(1000, resetAt - now + 2000)\<close> ms. The test of
  \<^verbatim>\<open>data.errors\<close> (line 106) comes first: a response that carries errors next to
  such a snapshot makes the loop sleep 5000 ms instead, here with \<open>waitMs = 32000\<close>.
\<close>

theorem errors_gate_precedes_rate_limit:
  "remaining quota_low \<le> 10
   \<and> max 1000 (resetAt quota_low - now (answer low_quota_with_errors) + 2000) = 32000
   \<and> body at_cursor (answer low_quota_with_errors) =
       ([Request (Some ''c0'') 100, Sleep 5000], \<lparr>collected = 200, after = Some ''c0'', page = 3\<rparr>, Continue)"
  by (simp add: quota_low_def empty_search_def low_quota_page_def low_quota_with_errors_def
      at_cursor_def answer_def body_def PAGE_SIZE_def)

text \<open>
  Claim C5, amended: for every response that carries no application-level errors and
  whose quota snapshot has \<open>remaining \<le> 10\<close>, the iteration sleeps
  \<open>max(1000, resetAt - now + 2000)\<close> ms and does nothing else: nothing is stored or
  counted, the cursor stays, and the next request is made with the same cursor.
\<close>

theorem rate_limit_pause_same_cursor:
  assumes "call ev = Inr d" and "errors d = None" and "data d = Some p"
    and "rateLimit p = Some rl" and "remaining rl \<le> 10"
  shows "body st ev =
           ([Request (after st) PAGE_SIZE, Sleep (max 1000 (resetAt rl - now ev + 2000))],
            st\<lparr>page := page st + 1\<rparr>, Continue)
         \<and> (collected st < target \<longrightarrow>
              (\<exists>fx st' e. loop target st (ev # ev' # evs) =
                 (Request (after st) PAGE_SIZE # Sleep (max 1000 (resetAt rl - now ev + 2000)) #
                  Request (after st) PAGE_SIZE # fx, st', e)))"
proof -
  let ?w = "max 1000 (resetAt rl - now ev + 2000)"
  let ?st1 = "st\<lparr>page := page st + 1\<rparr>"
  have b: "body st ev = ([Request (after st) PAGE_SIZE, Sleep ?w], ?st1, Continue)"
    using assms by (simp add: body_def rate_wait_def)
  have "\<exists>fx st' e. loop target st (ev # ev' # evs) =
           (Request (after st) PAGE_SIZE # Sleep ?w # Request (after st) PAGE_SIZE # fx, st', e)"
    if lt: "collected st < target"
  proof -
    have "collected ?st1 < target" using lt by simp
    from loop_first_request[OF this, of ev' evs]
    obtain fx st' e where "loop target ?st1 (ev' # evs) = (Request (after ?st1) PAGE_SIZE # fx, st', e)"
      by blast
    then have "loop target st (ev # ev' # evs) =
           (Request (after st) PAGE_SIZE # Sleep ?w # Request (after st) PAGE_SIZE # fx, st', e)"
      using lt b by simp
    then show ?thesis by blast
  qed
  then show ?thesis using b by blast
qed

theorem rate_limit_pause_same_cursor_witness:
  "body at_cursor (answer low_quota_page) =
     ([Request (Some ''c0'') 100, Sleep 32000], \<lparr>collected = 200, after = Some ''c0'', page = 3\<rparr>, Continue)
   \<and> (\<exists>fx st' e. loop 1000 at_cursor [answer low_quota_page, answer low_quota_page] =
         (Request (Some ''c0'') 100 # Sleep 32000 # Request (Some ''c0'') 100 # fx, st', e))"
proof -
  have h: "call (answer low_quota_page) = Inr low_quota_page" "errors low_quota_page = None"
    "data low_quota_page = Some \<lparr>rateLimit = Some quota_low, search = Some empty_search\<rparr>"
    "rateLimit \<lparr>rateLimit = Some quota_low, search = Some empty_search\<rparr> = Some quota_low"
    "remaining quota_low \<le> 10"
    by (simp_all add: answer_def low_quota_page_def quota_low_def)
  have w: "max 1000 (resetAt quota_low - now (answer low_quota_page) + 2000) = 32000"
    by (simp add: answer_def quota_low_def)
  have s: "after at_cursor = Some ''c0''" "collected at_cursor < 1000"
    "at_cursor\<lparr>page := page at_cursor + 1\<rparr> = \<lparr>collected = 200, after = Some ''c0'', page = 3\<rparr>"
    by (simp_all add: at_cursor_def)
  show ?thesis
    using rate_limit_pause_same_cursor [OF h, of at_cursor 1000 "answer low_quota_page" "[]"] s(2)
    unfolding w s(1) s(3) PAGE_SIZE_def by blast
qed

subsection \<open>Empty page\<close>

text \<open>
  Claim C6 says that every response with zero record envelopes ends the loop at once.
  The quota test (lines 114 to 125) comes first: an empty page whose snapshot has
  \<open>remaining \<le> 10\<close> makes the loop sleep and ask for the same page again.
\<close>

theorem rate_limit_gate_precedes_empty_page:
  "edges empty_search = Some []
   \<and> body at_cursor (answer low_quota_page) =
       ([Request (Some ''c0'') 100, Sleep 32000], \<lparr>collected = 200, after = Some ''c0'', page = 3\<rparr>, Continue)
   \<and> fst (loop 1000 at_cursor [answer low_quota_page, answer errors_only]) =
       [Request (Some ''c0'') 100, Sleep 32000, Request (Some ''c0'') 100, Sleep 5000]"
  by (simp add: quota_low_def empty_search_def low_quota_page_def errors_only_def at_cursor_def
      answer_def body_def rate_wait_def PAGE_SIZE_def)

text \<open>
  Claim C6, amended: for every response that carries no application-level errors and
  whose quota snapshot is absent or has \<open>remaining > 10\<close>, if it carries zero record
  envelopes (no search result, no edges, or an empty list of edges) then the loop ends
  in that iteration, before any upsert and with the cursor unchanged, whatever
  \<^verbatim>\<open>hasNextPage\<close> says.
\<close>

theorem empty_page_stops:
  assumes "call ev = Inr d" and "errors d = None" and "data d = Some p"
    and "case rateLimit p of None \<Rightarrow> True | Some rl \<Rightarrow> 10 < remaining rl"
    and "no_results (search p)"
  shows "body st ev = ([Request (after st) PAGE_SIZE], st\<lparr>page := page st + 1\<rparr>, Break NoResults)
         \<and> (collected st < target \<longrightarrow>
              loop target st (ev # evs) =
                ([Request (after st) PAGE_SIZE], st\<lparr>page := page st + 1\<rparr>, Broke NoResults))"
proof -
  have rw: "rate_wait (rateLimit p) (now ev) = None"
    using assms(4) by (auto simp: rate_wait_def split: option.splits)
  have ps: "page_stage (st\<lparr>page := page st + 1\<rparr>) (search p) (upsert_ok ev) =
              ([], st\<lparr>page := page st + 1\<rparr>, Break NoResults)"
    using assms(5) by (auto simp: page_stage_def no_results_def split: option.splits)
  have b: "body st ev = ([Request (after st) PAGE_SIZE], st\<lparr>page := page st + 1\<rparr>, Break NoResults)"
    using assms(1-3) rw ps by (simp add: body_def)
  then show ?thesis by simp
qed

theorem empty_page_stops_witness:
  "hasNextPage (pageInfo empty_search)
   \<and> body at_cursor (answer empty_page) =
       ([Request (Some ''c0'') 100], \<lparr>collected = 200, after = Some ''c0'', page = 3\<rparr>, Break NoResults)
   \<and> loop 1000 at_cursor [answer empty_page, answer page_two_nodes] =
       ([Request (Some ''c0'') 100], \<lparr>collected = 200, after = Some ''c0'', page = 3\<rparr>, Broke NoResults)"
  using empty_page_stops [of "answer empty_page" empty_page
      "\<lparr>rateLimit = Some quota_ok, search = Some empty_search\<rparr>" at_cursor 1000 "[answer page_two_nodes]"]
  by (simp add: quota_ok_def page_two_nodes_def empty_search_def empty_page_def at_cursor_def
      answer_def PAGE_SIZE_def no_results_def)

subsection \<open>Absent quota snapshot\<close>

text \<open>
  Claim C9 says that every response without a quota snapshot is processed without any
  pause. An answer that carries errors and no data has no snapshot either, and the
  test of line 106 makes the loop sleep 5000 ms and ask again; the page is not
  processed.
\<close>

theorem errors_gate_precedes_absent_quota:
  "data errors_only = None
   \<and> body at_cursor (answer errors_only) =
       ([Request (Some ''c0'') 100, Sleep 5000], \<lparr>collected = 200, after = Some ''c0'', page = 3\<rparr>, Continue)"
  by (simp add: errors_only_def at_cursor_def answer_def body_def PAGE_SIZE_def)

text \<open>
  Claim C9, amended: for every response that carries no application-level errors and has
  a data payload without a quota snapshot, the quota test is skipped: the iteration is
  the processing of the page (lines 127 to 167) with no pause before it, exactly as for
  a snapshot with \<open>remaining > 10\<close>.
\<close>

theorem absent_quota_proceeds:
  assumes "call ev = Inr d" and "errors d = None" and "data d = Some p" and "rateLimit p = None"
  shows "body st ev =
           (case page_stage (st\<lparr>page := page st + 1\<rparr>) (search p) (upsert_ok ev) of
              (fx, st', c) \<Rightarrow> (Request (after st) PAGE_SIZE # fx, st', c))
         \<and> (\<forall>ms fx. fst (body st ev) \<noteq> Request (after st) PAGE_SIZE # Sleep ms # fx)
         \<and> (\<forall>rl. 10 < remaining rl \<longrightarrow>
              body st (ev\<lparr>call := Inr (d\<lparr>data := Some (p\<lparr>rateLimit := Some rl\<rparr>)\<rparr>)\<rparr>) = body st ev)"
proof -
  let ?st1 = "st\<lparr>page := page st + 1\<rparr>"
  have b: "body st ev =
           (case page_stage ?st1 (search p) (upsert_ok ev) of
              (fx, st', c) \<Rightarrow> (Request (after st) PAGE_SIZE # fx, st', c))"
    using assms by (simp add: body_def rate_wait_def)
  have "fst (body st ev) = Request (after st) PAGE_SIZE # fst (page_stage ?st1 (search p) (upsert_ok ev))"
    using b by (simp split: prod.splits)
  then have n: "\<forall>ms fx. fst (body st ev) \<noteq> Request (after st) PAGE_SIZE # Sleep ms # fx"
    using page_stage_effects[of ?st1 "search p" "upsert_ok ev"] by auto
  have r: "\<forall>rl. 10 < remaining rl \<longrightarrow>
              body st (ev\<lparr>call := Inr (d\<lparr>data := Some (p\<lparr>rateLimit := Some rl\<rparr>)\<rparr>)\<rparr>) = body st ev"
    using assms by (simp add: body_def rate_wait_def)
  show ?thesis using b n r by blast
qed

theorem absent_quota_proceeds_witness:
  "body at_cursor (answer no_quota_page) =
     ([Request (Some ''c0'') 100, Upsert (repos_of [node_full, node_bare]) True, Sleep 200],
      \<lparr>collected = 202, after = Some ''c1'', page = 3\<rparr>, Continue)
   \<and> body at_cursor (answer page_two_nodes) = body at_cursor (answer no_quota_page)"
proof -
  let ?s = "\<lparr>edges = Some [node_full, node_bare],
             pageInfo = \<lparr>endCursor = Some ''c1'', hasNextPage = True\<rparr>\<rparr>"
  let ?p = "\<lparr>rateLimit = None, search = Some ?s\<rparr>"
  have h: "call (answer no_quota_page) = Inr no_quota_page" "errors no_quota_page = None"
    "data no_quota_page = Some ?p" "rateLimit ?p = None"
    by (simp_all add: answer_def no_quota_page_def)
  note t = absent_quota_proceeds [OF h, of at_cursor]
  have ps: "page_stage (at_cursor\<lparr>page := page at_cursor + 1\<rparr>) (search ?p)
              (upsert_ok (answer no_quota_page)) =
            ([Upsert (repos_of [node_full, node_bare]) True, Sleep 200],
             \<lparr>collected = 202, after = Some ''c1'', page = 3\<rparr>, Continue)"
    by (simp add: page_stage_def at_cursor_def answer_def falsy_def repos_of_def Let_def)
  have first: "body at_cursor (answer no_quota_page) =
     ([Request (Some ''c0'') 100, Upsert (repos_of [node_full, node_bare]) True, Sleep 200],
      \<lparr>collected = 202, after = Some ''c1'', page = 3\<rparr>, Continue)"
    using t ps by (simp add: at_cursor_def PAGE_SIZE_def)
  have q: "answer no_quota_page\<lparr>call := Inr (no_quota_page\<lparr>data := Some (?p\<lparr>rateLimit := Some quota_ok\<rparr>)\<rparr>)\<rparr>
           = answer page_two_nodes"
    by (simp add: answer_def no_quota_page_def page_two_nodes_def)
  have "10 < remaining quota_ok" by (simp add: quota_ok_def)
  then have "body at_cursor (answer page_two_nodes) = body at_cursor (answer no_quota_page)"
    using t q by metis
  then show ?thesis using first by simp
qed

subsection \<open>Overshoot of the target\<close>

lemma page_stage_collected:
  assumes "page_stage st so ok = (fx, st', c)"
    and "case so of None \<Rightarrow> True | Some s \<Rightarrow> (case edges s of None \<Rightarrow> True | Some es \<Rightarrow> length es \<le> PAGE_SIZE)"
  shows "collected st \<le> collected st' \<and> collected st' \<le> collected st + int PAGE_SIZE"
  using assms
  by (auto simp: page_stage_def Let_def repos_of_def split: option.splits if_splits)

lemma body_collected:
  assumes "body st ev = (fx, st', c)" and "within_page_size ev"
  shows "collected st \<le> collected st' \<and> collected st' \<le> collected st + int PAGE_SIZE"
proof (cases ev st rule: body_cases)
  case (page d p fx2 st2 c2)
  have "case search p of None \<Rightarrow> True | Some s \<Rightarrow> (case edges s of None \<Rightarrow> True | Some es \<Rightarrow> length es \<le> PAGE_SIZE)"
    using assms(2) page(1,3) by (simp add: within_page_size_def)
  from page_stage_collected[OF page(5) this] have "collected st \<le> collected st2 \<and> collected st2 \<le> collected st + int PAGE_SIZE"
    by simp
  then show ?thesis using page(6) assms(1) by simp
qed (use assms(1) in auto)

lemma loop_target_reached:
  assumes "\<forall>ev\<in>set evs. within_page_size ev"
    and "collected st < target + int PAGE_SIZE"
    and "loop target st evs = (fx, st', TargetReached)"
  shows "target \<le> collected st' \<and> collected st' < target + int PAGE_SIZE"
  using assms
proof (induction evs arbitrary: st fx)
  case Nil
  then show ?case by (simp split: if_splits)
next
  case (Cons ev evs)
  show ?case
  proof (cases "collected st < target")
    case False
    then show ?thesis using Cons.prems by simp
  next
    case True
    obtain fx1 st1 c where b: "body st ev = (fx1, st1, c)" by (cases "body st ev")
    have wp: "within_page_size ev" using Cons.prems(1) by simp
    have bound: "collected st1 < target + int PAGE_SIZE"
      using body_collected[OF b wp] True by simp
    show ?thesis
    proof (cases c)
      case Continue
      obtain fx2 st2 e where l: "loop target st1 evs = (fx2, st2, e)" by (cases "loop target st1 evs")
      have "e = TargetReached" "st2 = st'" using Cons.prems(3) True b Continue l by simp_all
      then have "loop target st1 evs = (fx2, st', TargetReached)" using l by simp
      moreover have "\<forall>ev\<in>set evs. within_page_size ev" using Cons.prems(1) by simp
      ultimately show ?thesis using Cons.IH[of st1 fx2] bound by blast
    next
      case (Break why)
      then show ?thesis using True b Cons.prems(3) by simp
    next
      case Throw
      then show ?thesis using True b Cons.prems(3) by simp
    qed
  qed
qed

text \<open>
  Claim C8: when the run ends because the loop condition fails (the target is reached),
  \<open>target \<le> collected < target + PAGE_SIZE\<close> with \<open>PAGE_SIZE = 100\<close>. The service is
  taken to honour \<^verbatim>\<open>first: PAGE_SIZE\<close> (no page has more than 100 edges), and the
  target to be a count (any target above \<open>-100\<close> will do). The bound is reached: a target
  of 1 and a full first page give \<open>collected = 100\<close>.
\<close>

theorem target_overshoot_below_page_size:
  assumes "ended (main target w) = Some TargetReached"
    and "\<forall>ev\<in>set (iters w). within_page_size ev"
    and "- int PAGE_SIZE < target"
  shows "target \<le> collected (final (main target w))
         \<and> collected (final (main target w)) < target + int PAGE_SIZE"
proof -
  have ok: "ensureSchema_ok w" using assms(1) by (simp add: main_ended split: if_splits)
  obtain fx st e where l: "loop target initial (iters w) = (fx, st, e)"
    by (cases "loop target initial (iters w)")
  have "e = TargetReached" using assms(1) ok l by (simp add: main_ended)
  then have l': "loop target initial (iters w) = (fx, st, TargetReached)" using l by simp
  have "collected initial < target + int PAGE_SIZE" using assms(3) by (simp add: initial_def)
  from loop_target_reached[OF assms(2) this l']
  show ?thesis using ok l by (simp add: main_final)
qed

theorem target_overshoot_below_page_size_witness:
  "ended (main 1 full_page_world) = Some TargetReached
   \<and> collected (final (main 1 full_page_world)) = 100
   \<and> 1 \<le> collected (final (main 1 full_page_world))
   \<and> collected (final (main 1 full_page_world)) < 1 + int PAGE_SIZE"
proof -
  have a: "ended (main 1 full_page_world) = Some TargetReached"
    by (simp add: quota_ok_def full_page_def answer_def full_page_world_def run_simps)
  have b: "\<forall>ev\<in>set (iters full_page_world). within_page_size ev"
    by (simp add: quota_ok_def full_page_def answer_def full_page_world_def
        within_page_size_def PAGE_SIZE_def)
  have c: "- int PAGE_SIZE < 1" by simp
  have d: "collected (final (main 1 full_page_world)) = 100"
    by (simp add: quota_ok_def full_page_def answer_def full_page_world_def run_simps)
  show ?thesis using target_overshoot_below_page_size [OF a b c] a d by simp
qed

subsection \<open>Normalization\<close>

text \<open>
  Claim C10: normalization yields exactly one record per record envelope, in the order of
  the envelopes; the stable identity of a record is the \<^verbatim>\<open>id\<close> of its node, the
  other fields are copied, a missing \<^verbatim>\<open>databaseId\<close> and a missing owner (or owner
  login) become \<^verbatim>\<open>null\<close>, and a missing \<^verbatim>\<open>stargazerCount\<close> becomes 0. For
  a non-empty page this batch is what the iteration hands to \<^verbatim>\<open>upsertRepos\<close>.
\<close>

theorem normalization_one_record_per_envelope:
  "length (repos_of es) = length es
   \<and> map repo_node_id (repos_of es) = map node_id es
   \<and> map repo_db_id (repos_of es) = map databaseId es
   \<and> map name (repos_of es) = map node_name es
   \<and> map url (repos_of es) = map node_url es
   \<and> map owner (repos_of es) =
       map (\<lambda>n. case node_owner n of None \<Rightarrow> None | Some ow \<Rightarrow> login ow) es
   \<and> map stars (repos_of es) =
       map (\<lambda>n. case stargazerCount n of None \<Rightarrow> 0 | Some s \<Rightarrow> s) es
   \<and> repo_db_id (to_repo (n\<lparr>databaseId := None\<rparr>)) = None
   \<and> owner (to_repo (n\<lparr>node_owner := None\<rparr>)) = None
   \<and> owner (to_repo (n\<lparr>node_owner := Some \<lparr>login = None\<rparr>\<rparr>)) = None
   \<and> stars (to_repo (n\<lparr>stargazerCount := None\<rparr>)) = 0
   \<and> (es \<noteq> [] \<longrightarrow>
        (\<exists>fx. fst (page_stage st (Some \<lparr>edges = Some es, pageInfo = info\<rparr>) ok) =
           Upsert (repos_of es) ok # fx))"
  by (simp add: repos_of_def to_repo_def comp_def page_stage_def Let_def)

theorem normalization_one_record_per_envelope_witness:
  "repos_of [node_full, node_bare] =
     [\<lparr>repo_node_id = ''R_1'', repo_db_id = Some 1, name = ''a'', owner = Some ''o'', stars = 5,
       url = ''u1''\<rparr>,
      \<lparr>repo_node_id = ''R_2'', repo_db_id = None, name = ''b'', owner = None, stars = 0,
       url = ''u2''\<rparr>]
   \<and> map repo_node_id (repos_of [node_full, node_bare]) = [''R_1'', ''R_2'']
   \<and> (\<exists>fx. fst (page_stage initial
          (Some \<lparr>edges = Some [node_full, node_bare],
             pageInfo = \<lparr>endCursor = Some ''c1'', hasNextPage = True\<rparr>\<rparr>) True) =
        Upsert (repos_of [node_full, node_bare]) True # fx)"
proof -
  have r: "repos_of [node_full, node_bare] =
     [\<lparr>repo_node_id = ''R_1'', repo_db_id = Some 1, name = ''a'', owner = Some ''o'', stars = 5,
       url = ''u1''\<rparr>,
      \<lparr>repo_node_id = ''R_2'', repo_db_id = None, name = ''b'', owner = None, stars = 0,
       url = ''u2''\<rparr>]"
    by (simp add: repos_of_def to_repo_def node_full_def node_bare_def)
  have n: "map node_id [node_full, node_bare] = [''R_1'', ''R_2'']"
    by (simp add: node_full_def node_bare_def)
  have ne: "[node_full, node_bare] \<noteq> []" by simp
  show ?thesis
    using normalization_one_record_per_envelope [of "[node_full, node_bare]" node_full initial
        "\<lparr>endCursor = Some ''c1'', hasNextPage = True\<rparr>" True] r n ne
    by metis
qed

section \<open>Properties of the retry wrapper\<close>

subsection \<open>Delays\<close>

lemma createTimeout_bounds:
  assumes "0 \<le> u" and "u < 1"
  shows "1000 * 2 ^ i \<le> createTimeout options i u
         \<and> createTimeout options i u \<le> 2000 * 2 ^ i"
proof -
  let ?x = "(u + 1) * 1000 * 2 ^ i"
  have c: "createTimeout options i u = round ?x"
    by (simp add: createTimeout_def options_def)
  have lo: "real_of_int (1000 * 2 ^ i) \<le> ?x"
    using assms(1) by (simp add: mult_right_mono)
  have hi: "?x \<le> real_of_int (2000 * 2 ^ i)"
    using assms(2) by (simp add: mult_right_mono)
  have "round (real_of_int (1000 * 2 ^ i)) \<le> round ?x" using lo by (rule round_mono)
  then have l: "1000 * 2 ^ i \<le> round ?x" by (simp only: round_of_int)
  have "round ?x \<le> round (real_of_int (2000 * 2 ^ i))" using hi by (rule round_mono)
  then have h: "round ?x \<le> 2000 * 2 ^ i" by (simp only: round_of_int)
  show ?thesis using l h by (simp only: c) 
qed

lemma timeouts_callGithub:
  assumes "\<forall>i. 0 \<le> rnd i \<and> rnd i < 1"
  shows "timeouts options rnd =
           map (\<lambda>i. createTimeout options i (rnd i)) [0..<5]"
proof -
  let ?o = "options"
  let ?t = "\<lambda>i. createTimeout ?o i (rnd i)"
  have b: "1000 * 2 ^ i \<le> ?t i \<and> ?t i \<le> 2000 * 2 ^ i" for i
    using assms createTimeout_bounds[of "rnd i" i] by simp
  have u: "[0..<5] = [0, 1, 2, 3, 4::nat]" by (simp add: upt_rec)
  have "sorted (map ?t [0..<5])"
    using b[of 0] b[of 1] b[of 2] b[of 3] b[of 4] unfolding u by simp
  then show ?thesis by (simp add: timeouts_def options_def sorted_sort_id)
qed

lemma length_timeouts: "length (timeouts options rnd) = 5"
  by (simp add: timeouts_def options_def)

subsection \<open>The course of an operation\<close>

lemma runAttempt_schedule:
  "\<exists>rest. schedule num touts = wire (runAttempt touts errs num settled ocs) @ rest"
proof (induction ocs arbitrary: touts errs num settled)
  case Nil
  then show ?case by simp
next
  case (Cons oc ocs)
  show ?case
  proof (cases "attempt_fn oc")
    case (Returns d)
    then show ?thesis by (cases touts) auto
  next
    case (Throws e)
    show ?thesis
    proof (cases touts)
      case Nil
      then show ?thesis using Throws by simp
    next
      case (Cons t ts)
      obtain rest where "schedule (num + 1) ts = wire (runAttempt ts (errs @ [e]) (num + 1) settled ocs) @ rest"
        using Cons.IH by blast
      then show ?thesis using Throws Cons by simp
    qed
  next
    case (BailsThenThrows b e)
    show ?thesis
    proof (cases touts)
      case Nil
      then show ?thesis using BailsThenThrows by simp
    next
      case (Cons t ts)
      obtain rest where "schedule (num + 1) ts = wire (runAttempt ts (errs @ [e]) (num + 1) True ocs) @ rest"
        using Cons.IH by blast
      then show ?thesis using BailsThenThrows Cons by simp
    qed
  qed
qed

lemma attempts_of_wire: "attempts_of (wire tr) = attempts_of tr"
  by (induction tr rule: wire.induct) auto

lemma attempts_of_append: "attempts_of (xs @ ys) = attempts_of xs @ attempts_of ys"
  by (induction xs rule: attempts_of.induct) auto

lemma attempts_of_schedule: "attempts_of (schedule num touts) = [num..<num + length touts + 1]"
  by (induction touts arbitrary: num) (auto simp: upt_rec)

lemma runAttempt_attempts:
  "length (attempts_of (runAttempt touts errs num settled ocs)) \<le> length touts + 1"
proof -
  obtain rest where r: "schedule num touts = wire (runAttempt touts errs num settled ocs) @ rest"
    using runAttempt_schedule by blast
  let ?a = "attempts_of (runAttempt touts errs num settled ocs)"
  have "attempts_of (schedule num touts) = ?a @ attempts_of rest"
    by (simp only: r attempts_of_append attempts_of_wire)
  then have "length (attempts_of (schedule num touts)) = length ?a + length (attempts_of rest)"
    by simp
  then show ?thesis by (simp add: attempts_of_schedule)
qed

lemma settlement_snoc: "settlement tr = None \<Longrightarrow> settlement (tr @ [Settled r]) = Some r"
  by (induction tr rule: settlement.induct) auto

lemma runAttempt_settles:
  assumes "length touts < length ocs"
  shows "settlement (runAttempt touts errs num False ocs) \<noteq> None"
  using assms
proof (induction ocs arbitrary: touts errs num)
  case Nil
  then show ?case by simp
next
  case (Cons oc ocs)
  show ?case
  proof (cases "attempt_fn oc")
    case (Returns d)
    then show ?thesis by simp
  next
    case (Throws e)
    show ?thesis
    proof (cases touts)
      case Nil
      then show ?thesis using Throws by simp
    next
      case (Cons t ts)
      have "length ts < length ocs" using Cons.prems Cons by simp
      from Cons.IH[OF this, of "errs @ [e]" "num + 1"] show ?thesis using Throws Cons by simp
    qed
  next
    case (BailsThenThrows b e)
    then show ?thesis by (cases touts) auto
  qed
qed

lemma callGithub_settles: "6 \<le> length ocs \<Longrightarrow> settlement (callGithub rnd ocs) \<noteq> None"
  using runAttempt_settles[of "timeouts options rnd" ocs "[]" 1]
  by (simp add: callGithub_def retry_def length_timeouts)

subsection \<open>The main error\<close>

lemma occurrences_snoc:
  "occurrences s (ps @ [e]) = occurrences s ps + (if message e = s then 1 else 0)"
  by (simp add: occurrences_def)

lemma main_error_from_inv:
  assumes "\<And>s. (case counts s of None \<Rightarrow> 0 | Some c \<Rightarrow> c) = occurrences s ps"
    and "\<And>s. occurrences s ps \<le> mc"
    and "case mainErr of
           None \<Rightarrow> ps = [] \<and> mc = 0
         | Some m \<Rightarrow> m \<in> set ps \<and> occurrences (message m) ps = mc
                     \<and> (occurrences (message (last ps)) ps = mc \<longrightarrow> m = last ps)"
    and "ps @ es \<noteq> []"
  shows "\<exists>m. main_error_from counts mainErr mc es = Some m \<and> m \<in> set (ps @ es)
           \<and> (\<forall>s. occurrences s (ps @ es) \<le> occurrences (message m) (ps @ es))
           \<and> ((\<forall>s. occurrences s (ps @ es) \<le> occurrences (message (last (ps @ es))) (ps @ es))
                \<longrightarrow> m = last (ps @ es))"
  using assms
proof (induction es arbitrary: counts mainErr mc ps)
  case Nil
  from Nil.prems(4) have ne: "ps \<noteq> []" by simp
  then obtain m where m: "mainErr = Some m" using Nil.prems(3) by (cases mainErr) auto
  have a: "m \<in> set ps" "occurrences (message m) ps = mc"
    "occurrences (message (last ps)) ps = mc \<longrightarrow> m = last ps"
    using Nil.prems(3) m by simp_all
  have "(\<forall>s. occurrences s ps \<le> occurrences (message (last ps)) ps) \<longrightarrow> m = last ps"
  proof
    assume h: "\<forall>s. occurrences s ps \<le> occurrences (message (last ps)) ps"
    then have "mc \<le> occurrences (message (last ps)) ps" using a(2) by metis
    then have "occurrences (message (last ps)) ps = mc" using Nil.prems(2)[of "message (last ps)"] by simp
    then show "m = last ps" using a(3) by simp
  qed
  then show ?case using m a Nil.prems(2) by simp
next
  case (Cons e es)
  let ?count = "occurrences (message e) ps + 1"
  let ?counts = "counts(message e \<mapsto> ?count)"
  let ?ps = "ps @ [e]"
  have cnt: "(case counts (message e) of None \<Rightarrow> 0 | Some c \<Rightarrow> c) = occurrences (message e) ps"
    using Cons.prems(1) by simp
  have c1: "\<And>s. (case ?counts s of None \<Rightarrow> 0 | Some c \<Rightarrow> c) = occurrences s ?ps"
    using Cons.prems(1) by (simp add: occurrences_snoc)
  have ne: "?ps @ es \<noteq> []" by simp
  have app: "?ps @ es = ps @ e # es" by simp
  show ?case
  proof (cases "mc \<le> ?count")
    case True
    have step: "main_error_from counts mainErr mc (e # es) = main_error_from ?counts (Some e) ?count es"
      using True cnt by (simp add: Let_def)
    have c2: "occurrences s ?ps \<le> ?count" for s
    proof (cases "message e = s")
      case True
      then show ?thesis by (simp add: occurrences_snoc)
    next
      case False
      have "occurrences s ps \<le> mc" by (rule Cons.prems(2))
      then show ?thesis using False \<open>mc \<le> ?count\<close> by (simp add: occurrences_snoc)
    qed
    have c3: "case Some e of
           None \<Rightarrow> ?ps = [] \<and> ?count = 0
         | Some m \<Rightarrow> m \<in> set ?ps \<and> occurrences (message m) ?ps = ?count
                     \<and> (occurrences (message (last ?ps)) ?ps = ?count \<longrightarrow> m = last ?ps)"
      by (simp add: occurrences_snoc)
    from Cons.IH[of ?counts ?ps ?count "Some e", OF c1 c2 c3 ne]
    show ?thesis unfolding step app .
  next
    case False
    then have lt: "?count < mc" by simp
    have step: "main_error_from counts mainErr mc (e # es) = main_error_from ?counts mainErr mc es"
      using False cnt by (simp add: Let_def)
    have c2: "occurrences s ?ps \<le> mc" for s
    proof (cases "message e = s")
      case True
      then show ?thesis using lt by (simp add: occurrences_snoc)
    next
      case False
      then show ?thesis using Cons.prems(2)[of s] by (simp add: occurrences_snoc)
    qed
    obtain m where m: "mainErr = Some m" using Cons.prems(3) lt by (cases mainErr) auto
    have a: "m \<in> set ps" "occurrences (message m) ps = mc" using Cons.prems(3) m by simp_all
    have neq: "message e \<noteq> message m" using a(2) lt by auto
    have c3: "case mainErr of
           None \<Rightarrow> ?ps = [] \<and> mc = 0
         | Some m \<Rightarrow> m \<in> set ?ps \<and> occurrences (message m) ?ps = mc
                     \<and> (occurrences (message (last ?ps)) ?ps = mc \<longrightarrow> m = last ?ps)"
      using m a neq lt by (simp add: occurrences_snoc)
    from Cons.IH[of ?counts ?ps mc mainErr, OF c1 c2 c3 ne]
    show ?thesis unfolding step app .
  qed
qed

lemma mainError_most_frequent:
  assumes "errs \<noteq> []"
  shows "\<exists>m. mainError errs = Some m \<and> m \<in> set errs
           \<and> (\<forall>s. occurrences s errs \<le> occurrences (message m) errs)
           \<and> ((\<forall>s. occurrences s errs \<le> occurrences (message (last errs)) errs) \<longrightarrow> m = last errs)"
  using main_error_from_inv[of Map.empty "[]" 0 None errs] assms
  by (simp add: mainError_def occurrences_def)

subsection \<open>Operations in which every attempt fails\<close>

lemma runAttempt_all_fail:
  assumes "map failure (take (length touts + 1) ocs) = map Some fs"
    and "length touts < length ocs"
  shows "\<exists>tr m. runAttempt touts errs num False ocs = tr @ [Settled (Inl m)]
           \<and> settlement tr = None \<and> mainError (errs @ fs) = Some m"
  using assms
proof (induction ocs arbitrary: touts errs num fs)
  case Nil
  then show ?case by simp
next
  case (Cons oc ocs)
  from Cons.prems(1) obtain e fs' where fs: "fs = e # fs'" and f: "failure oc = Some e"
    and rest: "map failure (take (length touts) ocs) = map Some fs'"
    by (cases fs) auto
  have th: "attempt_fn oc = Throws e" using f by (simp add: failure_def split: fn_result.splits)
  show ?case
  proof (cases touts)
    case Nil
    then have "fs' = []" using rest by simp
    have "errs @ [e] \<noteq> []" by simp
    then obtain m where m: "mainError (errs @ [e]) = Some m"
      using mainError_most_frequent by blast
    have "runAttempt touts errs num False (oc # ocs) = [Attempt num] @ [Settled (Inl m)]"
      using Nil th m by simp
    moreover have "settlement [Attempt num] = None" by simp
    ultimately show ?thesis using m fs \<open>fs' = []\<close> by blast
  next
    case (Cons t ts)
    have r: "map failure (take (length ts + 1) ocs) = map Some fs'" using rest Cons by simp
    have l: "length ts < length ocs" using Cons.prems(2) Cons by simp
    from Cons.IH[OF r l, of "errs @ [e]" "num + 1"]
    obtain tr m where tr: "runAttempt ts (errs @ [e]) (num + 1) False ocs = tr @ [Settled (Inl m)]"
      "settlement tr = None" "mainError ((errs @ [e]) @ fs') = Some m" by blast
    have "runAttempt touts errs num False (oc # ocs) = (Attempt num # Backoff t # tr) @ [Settled (Inl m)]"
      using Cons th tr(1) by simp
    moreover have "settlement (Attempt num # Backoff t # tr) = None" using tr(2) by simp
    ultimately show ?thesis using tr(3) fs by (metis append.assoc append_Cons append_Nil)
  qed
qed

lemma runAttempt_all_fail_attempts:
  assumes "map failure (take (length touts + 1) ocs) = map Some fs"
    and "length touts < length ocs"
  shows "length (attempts_of (runAttempt touts errs num settled ocs)) = length touts + 1"
  using assms
proof (induction ocs arbitrary: touts errs num fs)
  case Nil
  then show ?case by simp
next
  case (Cons oc ocs)
  from Cons.prems(1) obtain e fs' where fs: "fs = e # fs'" and f: "failure oc = Some e"
    and rest: "map failure (take (length touts) ocs) = map Some fs'"
    by (cases fs) auto
  have th: "attempt_fn oc = Throws e" using f by (simp add: failure_def split: fn_result.splits)
  show ?case
  proof (cases touts)
    case Nil
    then show ?thesis using th by simp
  next
    case (Cons t ts)
    have r: "map failure (take (length ts + 1) ocs) = map Some fs'" using rest Cons by simp
    have l: "length ts < length ocs" using Cons.prems(2) Cons by simp
    from Cons.IH[OF r l, of "errs @ [e]" "num + 1"] show ?thesis using Cons th by simp
  qed
qed

lemmas retry_simps = callGithub_def retry_def timeouts_def createTimeout_def options_def attempt_fn_def
  mainError_def message_def upt_rec

subsection \<open>Attempts, delays and the error surfaced\<close>

text \<open>
  Claim C4 says that the wrapper invokes the transport client at most 5 times, waits
  \<open>1000 * 2 ^ (attempt - 1)\<close> ms between attempts and surfaces the last error. With
  \<^verbatim>\<open>retries: 5\<close> the operation makes a first attempt and five retries: four
  time-outs followed by two answers 502 give six invocations, and the error surfaced is
  the time-out, which occurred more often than the last error. The delays are
  \<open>1000 * 2 ^ (attempt - 1)\<close> only when \<^verbatim>\<open>Math.random()\<close> yields 0 each time;
  with draws of one half they are 1500, 3000, 6000, 12000 and 24000 ms.
\<close>

theorem six_attempts_jitter_main_error:
  "callGithub (\<lambda>i. 0) mixed_failures =
     [Attempt 1, Backoff 1000, Attempt 2, Backoff 2000, Attempt 3, Backoff 4000, Attempt 4,
      Backoff 8000, Attempt 5, Backoff 16000, Attempt 6,
      Settled (Inl (AxiosError ''timeout of 20000ms exceeded'' None))]
   \<and> attempts_of (callGithub (\<lambda>i. 0) mixed_failures) = [1, 2, 3, 4, 5, 6]
   \<and> failure (last mixed_failures) = Some (AxiosError ''Request failed with status code 502'' (Some 502))
   \<and> wire (callGithub (\<lambda>i. 1 / 2) mixed_failures) =
     [Attempt 1, Backoff 1500, Attempt 2, Backoff 3000, Attempt 3, Backoff 6000, Attempt 4,
      Backoff 12000, Attempt 5, Backoff 24000, Attempt 6]"
  by (simp add: timed_out_def bad_gateway_def mixed_failures_def retry_simps failure_def)

text \<open>
  Claim C4, amended: for every single-page request the wrapper invokes the transport
  client at most 6 times (a first attempt and up to 5 retries), in the order of the
  schedule: attempt 1, the first delay, attempt 2, and so on. The delay before retry
  \<open>k\<close> is \<open>round ((u + 1) * 1000 * 2 ^ (k - 1))\<close> ms for the \<open>k\<close>-th random draw
  \<open>u\<close> in \<open>[0, 1)\<close>, hence between \<open>1000 * 2 ^ (k - 1)\<close> and \<open>2000 * 2 ^ (k - 1)\<close>.
  When the first six attempts all fail, none of them with status 401, the sixth is the
  last and the wrapper then surfaces the main error of the operation: one of the six
  errors, with a message that no other message outnumbers, and the last error whenever
  no message outnumbers the last error's.
\<close>

theorem callGithub_attempts_and_delays:
  "length (attempts_of (callGithub rnd ocs)) \<le> 6
   \<and> (\<exists>rest. schedule 1 (timeouts options rnd) = wire (callGithub rnd ocs) @ rest)
   \<and> ((\<forall>i. 0 \<le> rnd i \<and> rnd i < 1) \<longrightarrow>
        timeouts options rnd = map (\<lambda>i. createTimeout options i (rnd i)) [0..<5]
        \<and> (\<forall>i. 1000 * 2 ^ i \<le> createTimeout options i (rnd i)
              \<and> createTimeout options i (rnd i) \<le> 2000 * 2 ^ i))
   \<and> (6 \<le> length ocs \<and> map failure (take 6 ocs) = map Some fs \<longrightarrow>
        (\<exists>m. settlement (callGithub rnd ocs) = Some (Inl m)
           \<and> last (callGithub rnd ocs) = Settled (Inl m)
           \<and> length (attempts_of (callGithub rnd ocs)) = 6
           \<and> mainError fs = Some m \<and> m \<in> set fs
           \<and> (\<forall>s. occurrences s fs \<le> occurrences (message m) fs)
           \<and> ((\<forall>s. occurrences s fs \<le> occurrences (message (last fs)) fs) \<longrightarrow>
                m = last fs)))"
proof -
  let ?touts = "timeouts options rnd"
  have cg: "callGithub rnd ocs = runAttempt ?touts [] 1 False ocs"
    by (simp add: callGithub_def retry_def)
  have a: "length (attempts_of (callGithub rnd ocs)) \<le> 6"
    using runAttempt_attempts[of ?touts "[]" 1 False ocs] by (simp add: cg length_timeouts)
  have b: "\<exists>rest. schedule 1 ?touts = wire (callGithub rnd ocs) @ rest"
    using runAttempt_schedule[of 1 ?touts "[]" False ocs] by (simp only: cg)
  have c: "?touts = map (\<lambda>i. createTimeout options i (rnd i)) [0..<5]
        \<and> (\<forall>i. 1000 * 2 ^ i \<le> createTimeout options i (rnd i)
              \<and> createTimeout options i (rnd i) \<le> 2000 * 2 ^ i)"
    if j: "\<forall>i. 0 \<le> rnd i \<and> rnd i < 1"
    using timeouts_callGithub[OF j] j createTimeout_bounds by blast
  have d: "\<exists>m. settlement (callGithub rnd ocs) = Some (Inl m)
            \<and> last (callGithub rnd ocs) = Settled (Inl m)
            \<and> length (attempts_of (callGithub rnd ocs)) = 6
            \<and> mainError fs = Some m \<and> m \<in> set fs
            \<and> (\<forall>s. occurrences s fs \<le> occurrences (message m) fs)
            \<and> ((\<forall>s. occurrences s fs \<le> occurrences (message (last fs)) fs) \<longrightarrow>
                 m = last fs)"
    if h: "6 \<le> length ocs" "map failure (take 6 ocs) = map Some fs"
  proof -
    have h1: "map failure (take (length ?touts + 1) ocs) = map Some fs"
      using h(2) by (simp add: length_timeouts)
    have h2: "length ?touts < length ocs" using h(1) by (simp add: length_timeouts)
    from runAttempt_all_fail[OF h1 h2, of "[]" 1]
    obtain tr m where tr: "callGithub rnd ocs = tr @ [Settled (Inl m)]" "settlement tr = None"
      "mainError fs = Some m" unfolding cg by auto
    have s: "settlement (callGithub rnd ocs) = Some (Inl m)"
      using tr(1,2) settlement_snoc by simp
    have l: "last (callGithub rnd ocs) = Settled (Inl m)" using tr(1) by simp
    have n: "length (attempts_of (callGithub rnd ocs)) = 6"
      using runAttempt_all_fail_attempts[OF h1 h2, of "[]" 1 False]
      by (simp add: cg length_timeouts)
    have "length fs = 6" using h by (metis length_map length_take min.absorb2)
    then have "fs \<noteq> []" by auto
    from mainError_most_frequent[OF this] tr(3)
    have "m \<in> set fs \<and> (\<forall>s. occurrences s fs \<le> occurrences (message m) fs)
            \<and> ((\<forall>s. occurrences s fs \<le> occurrences (message (last fs)) fs) \<longrightarrow>
                 m = last fs)"
      by auto
    then show ?thesis using s l n tr(3) by blast
  qed
  show ?thesis using a b c d by blast
qed

theorem callGithub_attempts_and_delays_witness:
  "length (attempts_of (callGithub (\<lambda>i. 1 / 2) mixed_failures)) = 6
   \<and> settlement (callGithub (\<lambda>i. 1 / 2) mixed_failures) =
       Some (Inl (AxiosError ''timeout of 20000ms exceeded'' None))
   \<and> 1000 \<le> createTimeout options 0 (1 / 2) \<and> createTimeout options 0 (1 / 2) \<le> 2000
   \<and> 16000 \<le> createTimeout options 4 (1 / 2) \<and> createTimeout options 4 (1 / 2) \<le> 32000"
proof -
  let ?to = "AxiosError ''timeout of 20000ms exceeded'' None"
  let ?bg = "AxiosError ''Request failed with status code 502'' (Some 502)"
  let ?fs = "[?to, ?to, ?to, ?to, ?bg, ?bg]"
  have j: "\<forall>i::nat. (0::real) \<le> 1 / 2 \<and> (1 / 2 :: real) < 1" by simp
  have h: "6 \<le> length mixed_failures \<and> map failure (take 6 mixed_failures) = map Some ?fs"
    by (simp add: timed_out_def bad_gateway_def mixed_failures_def failure_def attempt_fn_def)
  have m: "mainError ?fs = Some ?to" by (simp add: mainError_def message_def)
  note t = callGithub_attempts_and_delays [of "\<lambda>i. 1 / 2" mixed_failures ?fs]
  from t h obtain e where e: "settlement (callGithub (\<lambda>i. 1 / 2) mixed_failures) = Some (Inl e)"
    "length (attempts_of (callGithub (\<lambda>i. 1 / 2) mixed_failures)) = 6" "mainError ?fs = Some e"
    by blast
  have "e = ?to" using e(3) m by simp
  moreover have "1000 * 2 ^ 0 \<le> createTimeout options 0 (1 / 2)
      \<and> createTimeout options 0 (1 / 2) \<le> 2000 * 2 ^ 0" using t j by blast
  moreover have "1000 * 2 ^ 4 \<le> createTimeout options 4 (1 / 2)
      \<and> createTimeout options 4 (1 / 2) \<le> 2000 * 2 ^ 4" using t j by blast
  ultimately show ?thesis using e(1,2) by simp
qed

subsection \<open>Unauthorized\<close>

text \<open>
  Claim C7 says that after an attempt that fails with status 401 the wrapper makes no
  further attempt and incurs no backoff delay, and surfaces a fatal error that ends the
  crawl. The last part holds: \<^verbatim>\<open>bail\<close> rejects the promise at once, and the loop
  breaks on the rejection. But the callback does not return after \<^verbatim>\<open>bail\<close>; it
  throws the original error (line 75), and an attempt that throws is retried. With a
  token that the server rejects every time, the first attempt settles the promise and
  five more attempts follow, each after its backoff delay.
\<close>

theorem unauthorized_is_retried:
  "callGithub (\<lambda>i. 0) [unauthorized, unauthorized, unauthorized, unauthorized, unauthorized, unauthorized] =
     [Attempt 1, Settled (Inl Unauthorized), Backoff 1000, Attempt 2, Backoff 2000, Attempt 3,
      Backoff 4000, Attempt 4, Backoff 8000, Attempt 5, Backoff 16000, Attempt 6]
   \<and> settlement (callGithub (\<lambda>i. 0)
        [unauthorized, unauthorized, unauthorized, unauthorized, unauthorized, unauthorized]) =
       Some (Inl Unauthorized)
   \<and> body initial \<lparr>call = Inl Unauthorized, now = 0, upsert_ok = True\<rparr> =
       ([Request None 100], \<lparr>collected = 0, after = None, page = 1\<rparr>, Break (FatalError Unauthorized))"
  by (simp add: unauthorized_def retry_simps body_def initial_def PAGE_SIZE_def)

end
